theory Spec2Isabelle
  imports Main "HOL-Library.Word" "HOL-Library.Signed_Division"
begin

section \<open>FlexChat FLTK front end: markup transcoder, spell annotator, palette store\<close>

text \<open>
  A shallow embedding of the text-rendering core of \<^verbatim>\<open>src/fe-fltk/fe-fltk.cpp\<close>:
  \<^verbatim>\<open>append_text\<close> with its local helpers \<^verbatim>\<open>hash_nick_color\<close> and
  \<^verbatim>\<open>style_for_state\<close>, \<^verbatim>\<open>looks_like_url\<close>, the \<^verbatim>\<open>spell_*\<close> functions and
  \<^verbatim>\<open>palette_load\<close> / \<^verbatim>\<open>palette_save\<close>.

  Conventions. A \<^verbatim>\<open>char\<close> is a byte (\<^typ>\<open>char\<close>), a \<^verbatim>\<open>std::string\<close> is a
  \<^typ>\<open>string\<close>. A \<^verbatim>\<open>const char *\<close> is the list of bytes found at the pointer; the C
  string it denotes ends before the first NUL byte (\<open>c_str\<close>). Global variables of the
  translation unit are fields of explicit state records, and every function that writes
  them returns the new state. Calls into GLib, Enchant and libc are modelled by what their
  documentation promises; tables that cannot be written down (Unicode character classes)
  are parameters.
\<close>

subsection \<open>C strings and character classes\<close>

definition c_str :: "string \<Rightarrow> string" where
  "c_str s = takeWhile (\<lambda>c. c \<noteq> CHR 0x00) s"

text \<open>The value of a byte read as \<^verbatim>\<open>unsigned char\<close>.\<close>

definition byte :: "char \<Rightarrow> nat" where
  "byte c = of_char c"

definition g_ascii_isdigit :: "char \<Rightarrow> bool" where
  "g_ascii_isdigit c = (48 \<le> byte c \<and> byte c \<le> 57)"

text \<open>GLib's \<^verbatim>\<open>g_ascii_isspace\<close>: space, form feed, newline, carriage return and tab.\<close>

definition g_ascii_isspace :: "char \<Rightarrow> bool" where
  "g_ascii_isspace c = (c = CHR '' '' \<or> c = CHR 0x0C \<or> c = CHR 0x0A \<or> c = CHR 0x0D \<or> c = CHR 0x09)"

definition g_ascii_tolower :: "char \<Rightarrow> char" where
  "g_ascii_tolower c = (if 65 \<le> byte c \<and> byte c \<le> 90 then char_of (byte c + 32) else c)"

text \<open>
  \<^verbatim>\<open>g_ascii_strncasecmp (p, lit, n) == 0\<close> for a literal \<open>lit\<close> of exactly \<open>n\<close>
  characters: the first \<open>n\<close> bytes of \<open>p\<close> exist and agree with \<open>lit\<close> up to ASCII case.
  \<^verbatim>\<open>strncasecmp\<close> against an ASCII literal decides the same.
\<close>

definition strncasecmp_eq :: "string \<Rightarrow> string \<Rightarrow> nat \<Rightarrow> bool" where
  "strncasecmp_eq p lit n = (map g_ascii_tolower (take n p) = map g_ascii_tolower (take n lit))"

subsection \<open>Nick colour hash\<close>

text \<open>
  \<^verbatim>\<open>
  auto hash_nick_color = [](const std::string &nick) -> int {
      int sum = 0;
      for (unsigned char ch : nick)
          sum += ch;
      return (sum % 16);
  };
  \<close>
  \<^verbatim>\<open>sum\<close> is a 32-bit \<^verbatim>\<open>int\<close>, read as two's complement, and C's \<^verbatim>\<open>%\<close>
  truncates towards zero (\<open>smod\<close>). An addition that passes \<^verbatim>\<open>INT_MAX\<close> is undefined in
  C++; it takes a string whose bytes sum to more than \<open>2147483647\<close>, of more than 8 MB.
  The model lets the additions wrap there, which is one of the things a build may do, and
  the properties below say nothing of such strings.
\<close>

type_synonym c_int = "32 word"

fun nick_sum :: "c_int \<Rightarrow> string \<Rightarrow> c_int" where
  "nick_sum acc [] = acc"
| "nick_sum acc (ch # nick) = nick_sum (acc + of_nat (byte ch)) nick"

definition hash_nick_color :: "string \<Rightarrow> int" where
  "hash_nick_color nick = sint (nick_sum 0 nick) smod 16"

subsection \<open>The markup transcoder: \<^verbatim>\<open>append_text\<close>\<close>

text \<open>
  \<^verbatim>\<open>looks_like_url\<close> is handed a pointer into the message. \<^verbatim>\<open>!p || !*p\<close> is the
  end of the C string.
\<close>

definition looks_like_url :: "string \<Rightarrow> bool" where
  "looks_like_url p =
     (if p = [] then False
      else strncasecmp_eq p ''http://'' 7 \<or>
           strncasecmp_eq p ''https://'' 8 \<or>
           strncasecmp_eq p ''ftp://'' 6 \<or>
           strncasecmp_eq p ''irc://'' 6 \<or>
           strncasecmp_eq p ''www.'' 4)"

text \<open>The locals \<^verbatim>\<open>in_ctcp\<close>, \<^verbatim>\<open>fg\<close>, \<^verbatim>\<open>bold\<close>, \<^verbatim>\<open>underline\<close> of the scan.\<close>

record parse_state =
  in_ctcp :: bool
  fg :: int
  bold :: bool
  underline :: bool

definition initial_parse_state :: parse_state where
  "initial_parse_state = \<lparr>in_ctcp = False, fg = - 1, bold = False, underline = False\<rparr>"

text \<open>\<^verbatim>\<open>static_cast<char>('A' + k)\<close>: the style tag of slot \<open>k\<close>.\<close>

definition style_tag :: "int \<Rightarrow> char" where
  "style_tag k = char_of (65 + k)"

text \<open>
  \<^verbatim>\<open>
  auto style_for_state = [&](bool hyperlink) -> char {
      if (hyperlink) return static_cast<char>('A' + 57);
      if (in_ctcp && fg < 0 && !bold && !underline) return 'C';
      int base = (fg >= 0 && fg < 16) ? 3 + fg : 0;
      int region = 19;
      if (bold) base += region;
      else if (underline) base += region * 2;
      return static_cast<char>('A' + base);
  };
  \<close>
\<close>

definition style_for_state :: "parse_state \<Rightarrow> bool \<Rightarrow> char" where
  "style_for_state st hyperlink =
     (if hyperlink then style_tag 57
      else if in_ctcp st \<and> fg st < 0 \<and> \<not> bold st \<and> \<not> underline st then CHR ''C''
      else
        let base = (if fg st \<ge> 0 \<and> fg st < 16 then 3 + fg st else 0);
            region = 19
        in if bold st then style_tag (base + region)
           else if underline st then style_tag (base + region * 2)
           else style_tag base)"

text \<open>
  The nick detected before the scan: \<^verbatim>\<open>nick_start\<close>, \<^verbatim>\<open>nick_len\<close>, \<^verbatim>\<open>nick_color\<close>,
  initialised to \<open>-1, 0, -1\<close>. These counters only decide where the nick colour overrides
  \<^verbatim>\<open>fg\<close>; they are kept as unbounded integers.
\<close>

record nick_span =
  nick_start :: int
  nick_len :: int
  nick_color :: int

definition no_nick :: nick_span where
  "no_nick = \<lparr>nick_start = - 1, nick_len = 0, nick_color = - 1\<rparr>"

definition is_blank :: "char \<Rightarrow> bool" where
  "is_blank c = (c = CHR '' '' \<or> c = CHR 0x09)"

definition detect_nick :: "string \<Rightarrow> nick_span" where
  "detect_nick msg =
     (let offset = int (length (takeWhile is_blank msg));
          p = dropWhile is_blank msg
      in case p of
           [] \<Rightarrow> no_nick
         | c # p1 \<Rightarrow>
             if c = CHR ''<'' then
               (let nick = takeWhile (\<lambda>c. c \<noteq> CHR ''>'' \<and> c \<noteq> CHR '' '') p1;
                    stop = dropWhile (\<lambda>c. c \<noteq> CHR ''>'' \<and> c \<noteq> CHR '' '') p1
                in case stop of
                     [] \<Rightarrow> no_nick
                   | e # _ \<Rightarrow>
                       if e = CHR ''>'' then
                         \<lparr>nick_start = offset + 1, nick_len = int (length nick),
                          nick_color = hash_nick_color nick\<rparr>
                       else no_nick)
             else if c = CHR ''*'' \<and> take 1 p1 = '' '' then
               (let nick = takeWhile (\<lambda>c. c \<noteq> CHR '' '') (drop 1 p1)
                in if nick \<noteq> [] then
                     \<lparr>nick_start = offset + 2, nick_len = int (length nick),
                      nick_color = hash_nick_color nick\<rparr>
                   else no_nick)
             else no_nick)"

text \<open>\<^verbatim>\<open>for (int k = 0; k < 2 && g_ascii_isdigit (*p); k++, p++) {}\<close> with \<open>n = 2 - k\<close>.\<close>

fun skip_digits :: "nat \<Rightarrow> string \<Rightarrow> string" where
  "skip_digits 0 p = p"
| "skip_digits (Suc n) [] = []"
| "skip_digits (Suc n) (c # p) = (if g_ascii_isdigit c then skip_digits n p else c # p)"

text \<open>What follows the colour introducer: optional \<^verbatim>\<open>fg[,bg]\<close>; the digits are dropped.\<close>

definition skip_color_args :: "string \<Rightarrow> string" where
  "skip_color_args p =
     (let p1 = skip_digits 2 p
      in case p1 of
           [] \<Rightarrow> p1
         | c # p2 \<Rightarrow> if c = CHR '','' then skip_digits 2 p2 else p1)"

text \<open>The characters a URL run consumes: \<^verbatim>\<open>*p && !g_ascii_isspace (*p) && (unsigned char)*p >= 0x20\<close>.\<close>

definition url_char :: "char \<Rightarrow> bool" where
  "url_char c = (\<not> g_ascii_isspace c \<and> byte c \<ge> 32)"

lemma skip_digits_length: "length (skip_digits n p) \<le> length p"
  by (induction n p rule: skip_digits.induct) auto

lemma skip_color_args_length: "length (skip_color_args p) \<le> length p"
proof -
  have a: "length (skip_digits 2 p) \<le> length p" by (rule skip_digits_length)
  show ?thesis
  proof (cases "skip_digits 2 p")
    case Nil
    then show ?thesis by (simp add: skip_color_args_def)
  next
    case (Cons c p2)
    have "length (skip_digits 2 p2) \<le> length p2" by (rule skip_digits_length)
    with a Cons show ?thesis by (simp add: skip_color_args_def)
  qed
qed

lemma looks_like_url_first:
  assumes "looks_like_url (ch # rest)"
  shows "url_char ch"
proof -
  have "g_ascii_tolower ch \<in> {CHR ''h'', CHR ''f'', CHR ''i'', CHR ''w''}"
    using assms by (auto simp add: looks_like_url_def strncasecmp_eq_def g_ascii_tolower_def byte_def)
  then show ?thesis
    by (auto simp add: g_ascii_tolower_def url_char_def g_ascii_isspace_def byte_def
        split: if_splits)
qed

text \<open>
  One turn of the main scan \<^verbatim>\<open>for (const char *p = msg; *p; ) { ... }\<close> at the byte
  \<open>ch = *p\<close>, with \<open>rest\<close> the bytes after it. The state of the loop is the parse state,
  \<^verbatim>\<open>out_pos\<close>, the pointer \<^verbatim>\<open>p\<close> (the bytes from \<^verbatim>\<open>p\<close> on) and the two strings
  \<^verbatim>\<open>out\<close> and \<^verbatim>\<open>styles\<close>, which \<^verbatim>\<open>append_char\<close> extends together.
\<close>

type_synonym scan_state = "parse_state \<times> int \<times> string \<times> string \<times> string"

definition scan_step ::
  "nick_span \<Rightarrow> parse_state \<Rightarrow> int \<Rightarrow> char \<Rightarrow> string \<Rightarrow> string \<Rightarrow> string \<Rightarrow> scan_state" where
  "scan_step nick st out_pos ch rest out styles =
     (if ch = CHR 0x01 then (st\<lparr>in_ctcp := \<not> in_ctcp st\<rparr>, out_pos, rest, out, styles)
      else if ch = CHR 0x03 then (st, out_pos, skip_color_args rest, out, styles)
      else if ch = CHR 0x02 then (st\<lparr>bold := \<not> bold st\<rparr>, out_pos, rest, out, styles)
      else if ch = CHR 0x1F then (st\<lparr>underline := \<not> underline st\<rparr>, out_pos, rest, out, styles)
      else if ch = CHR 0x16 then (st, out_pos, rest, out, styles)
      else if ch = CHR 0x0F then
        (st\<lparr>fg := - 1, bold := False, underline := False\<rparr>, out_pos, rest, out, styles)
      else if ch = CHR 0x07 then (st, out_pos, rest, out, styles)
      else if looks_like_url (ch # rest) then
        (let url = takeWhile url_char (ch # rest)
         in (st, out_pos + int (length url), dropWhile url_char (ch # rest),
             out @ url, styles @ replicate (length url) (style_for_state st True)))
      else
        (let apply_nick_color =
               (nick_start nick \<ge> 0 \<and> nick_color nick \<ge> 0 \<and>
                out_pos \<ge> nick_start nick \<and> out_pos < nick_start nick + nick_len nick);
             st_here = (if apply_nick_color then st\<lparr>fg := nick_color nick\<rparr> else st)
         in (st, out_pos + 1, rest, out @ [ch], styles @ [style_for_state st_here False])))"

lemma scan_step_shorter:
  assumes "scan_step nick st out_pos ch rest out styles = (st', out_pos', p', out', styles')"
  shows "length p' \<le> length rest"
proof (cases "looks_like_url (ch # rest)")
  case True
  then have "url_char ch" by (rule looks_like_url_first)
  then have "length (dropWhile url_char (ch # rest)) \<le> length rest"
    by (simp add: length_dropWhile_le)
  with assms skip_color_args_length [of rest] show ?thesis
    by (auto simp add: scan_step_def Let_def split: if_splits)
next
  case False
  with assms skip_color_args_length [of rest] show ?thesis
    by (auto simp add: scan_step_def Let_def split: if_splits)
qed

lemma scan_step_rest_shorter:
  "(case scan_step nick st out_pos ch rest out styles of
      (st', out_pos', p', out', styles') \<Rightarrow> length p') \<le> length rest"
proof -
  obtain st' out_pos' p' out' styles'
    where step: "scan_step nick st out_pos ch rest out styles = (st', out_pos', p', out', styles')"
    by (cases "scan_step nick st out_pos ch rest out styles") blast
  then have "length p' \<le> length rest" by (rule scan_step_shorter)
  with step show ?thesis by simp
qed

text \<open>The loop: it runs until \<^verbatim>\<open>*p\<close> is the terminating NUL.\<close>

function scan_loop ::
  "nick_span \<Rightarrow> parse_state \<Rightarrow> int \<Rightarrow> string \<Rightarrow> string \<Rightarrow> string \<Rightarrow> string \<times> string" where
  "scan_loop nick st out_pos [] out styles = (out, styles)"
| "scan_loop nick st out_pos (ch # rest) out styles =
     (case scan_step nick st out_pos ch rest out styles of
        (st', out_pos', p', out', styles') \<Rightarrow> scan_loop nick st' out_pos' p' out' styles')"
  by pat_completeness auto
termination
proof (relation "measure (\<lambda>(nick, st, out_pos, p, out, styles). length p)")
  show "wf (measure (\<lambda>(nick, st, out_pos, p, out, styles). length p))" by simp
qed (simp add: less_Suc_eq_le scan_step_rest_shorter)

text \<open>The CTCP ACTION wrapper, \<^verbatim>\<open>"\001ACTION "\<close>.\<close>

definition action_marker :: string where
  "action_marker = CHR 0x01 # ''ACTION ''"

text \<open>
  The timestamp block. \<open>strftime_result\<close> is what \<^verbatim>\<open>localtime\<close> and \<^verbatim>\<open>strftime\<close> left:
  \<open>Some tbuf\<close> when \<^verbatim>\<open>tm && strftime (tbuf, sizeof tbuf, fmt, tm)\<close> holds, \<open>None\<close> otherwise.
\<close>

definition timestamp_prefix :: "bool \<Rightarrow> string option \<Rightarrow> string \<times> string" where
  "timestamp_prefix hex_stamp_text strftime_result =
     (if hex_stamp_text then
        (case strftime_result of
           None \<Rightarrow> ([], [])
         | Some tbuf \<Rightarrow> (c_str tbuf @ '' '', replicate (length (c_str tbuf) + 1) CHR ''A''))
      else ([], []))"

text \<open>
  The strings \<^verbatim>\<open>out\<close> and \<^verbatim>\<open>styles\<close> that \<^verbatim>\<open>append_text\<close> builds from its argument
  \<^verbatim>\<open>text\<close> (\<open>None\<close> is the null pointer) before it appends them to the buffers.
\<close>

definition append_text_strings ::
  "bool \<Rightarrow> string option \<Rightarrow> string option \<Rightarrow> string \<times> string" where
  "append_text_strings hex_stamp_text strftime_result text =
     (let msg = (case text of None \<Rightarrow> [] | Some t \<Rightarrow> c_str t);
          stamped = timestamp_prefix hex_stamp_text strftime_result;
          nick = detect_nick msg;
          out_pos = int (length (fst stamped));
          built =
            (if take 8 msg = action_marker then
               (let body = drop 8 msg;
                    len = (if body \<noteq> [] \<and> last body = CHR 0x01 then length body - 1
                           else length body)
                in (fst stamped @ ''* '' @ take len body,
                    snd stamped @ ''BB'' @ replicate len CHR ''B''))
             else scan_loop nick initial_parse_state out_pos msg (fst stamped) (snd stamped))
      in if fst built = [] \<or> last (fst built) \<noteq> CHR 0x0A
         then (fst built @ [CHR 0x0A], snd built @ ''A'')
         else built)"

text \<open>
  The two \<^verbatim>\<open>Fl_Text_Buffer\<close>s of a \<^verbatim>\<open>SessionUI\<close>; \<open>None\<close> is a null pointer.
  \<^verbatim>\<open>ensure_session_ui\<close> creates both empty, or returns no UI at all.
\<close>

record SessionUI =
  buffer :: "string option"
  style_buffer :: "string option"

definition new_session_ui :: SessionUI where
  "new_session_ui = \<lparr>buffer = Some [], style_buffer = Some []\<rparr>"

text \<open>
  \<^verbatim>\<open>append_text\<close> on the UI that \<^verbatim>\<open>ensure_session_ui\<close> returned:
  \<^verbatim>\<open>
  if (!ui || !ui->buffer) return;
  ...
  ui->buffer->append (out.c_str ());
  if (ui->style_buffer && ui->style_buffer->length () <= ui->buffer->length ())
      ui->style_buffer->append (styles.c_str ());
  \<close>
\<close>

definition append_text ::
  "bool \<Rightarrow> string option \<Rightarrow> SessionUI option \<Rightarrow> string option \<Rightarrow> SessionUI option" where
  "append_text hex_stamp_text strftime_result ui text =
     (case ui of
        None \<Rightarrow> None
      | Some u \<Rightarrow>
          (case buffer u of
             None \<Rightarrow> Some u
           | Some b \<Rightarrow>
               (let built = append_text_strings hex_stamp_text strftime_result text;
                    b' = b @ c_str (fst built);
                    sb' = (case style_buffer u of
                             None \<Rightarrow> None
                           | Some sb \<Rightarrow>
                               if length sb \<le> length b' then Some (sb @ c_str (snd built))
                               else Some sb)
                in Some (u\<lparr>buffer := Some b', style_buffer := sb'\<rparr>))))"

text \<open>
  \<^verbatim>\<open>
  void fe_text_clear (struct session *sess, int lines)
  {
      (void)lines;
      SessionUI *ui = ensure_session_ui (sess);
      if (ui && ui->buffer)
          ui->buffer->text ("");
  }
  \<close>
  It is what the menu entry \<^verbatim>\<open>menu_clear_cb\<close> and \<^verbatim>\<open>fe_clear_channel\<close> call. It
  empties the text buffer and leaves the style buffer as it is.
\<close>

definition fe_text_clear :: "SessionUI option \<Rightarrow> SessionUI option" where
  "fe_text_clear ui =
     (case ui of
        None \<Rightarrow> None
      | Some u \<Rightarrow>
          (case buffer u of
             None \<Rightarrow> Some u
           | Some b \<Rightarrow> Some (u\<lparr>buffer := Some []\<rparr>)))"

text \<open>
  The life of the two buffers of a session: the calls that write them, in order. These
  are \<^verbatim>\<open>append_text\<close>, with the preference \<^verbatim>\<open>hex_stamp_text\<close> and the \<^verbatim>\<open>strftime\<close>
  result of its moment and its text, and \<^verbatim>\<open>fe_text_clear\<close>; no other function of the
  file writes either buffer.
\<close>

datatype buffer_call =
  Append_text bool "string option" "string option"
| Text_clear

fun run_session :: "SessionUI option \<Rightarrow> buffer_call list \<Rightarrow> SessionUI option" where
  "run_session ui [] = ui"
| "run_session ui (Append_text hex_stamp_text strftime_result text # calls) =
     run_session (append_text hex_stamp_text strftime_result ui text) calls"
| "run_session ui (Text_clear # calls) = run_session (fe_text_clear ui) calls"

text \<open>The calls that are appends.\<close>

fun is_append :: "buffer_call \<Rightarrow> bool" where
  "is_append (Append_text hex_stamp_text strftime_result text) = True"
| "is_append Text_clear = False"

text \<open>The bytes the scan consumes as control codes.\<close>

definition is_control_code :: "char \<Rightarrow> bool" where
  "is_control_code ch =
     (ch \<in> {CHR 0x01, CHR 0x03, CHR 0x02, CHR 0x1F, CHR 0x16, CHR 0x0F, CHR 0x07})"

text \<open>
  The style precedence in the words of the specification (section 4.1), over the
  specification's \<open>ParseState\<close>, whose \<open>foreground\<close> is an optional colour index: the
  hyperlink slot inside a URL span; else the CTCP slot when \<open>in_ctcp\<close> is set and no
  foreground, bold or underline is active; else the base index \<open>0\<close>, or \<open>3 + foreground\<close>,
  moved into the bold region when bold is on, else into the underline region when underline
  is on. The regions start at the slots 19 and 38 of \<^verbatim>\<open>build_style_table\<close>; the hyperlink
  slot is 57, the CTCP slot 2.
\<close>

definition spec_style_slot :: "bool \<Rightarrow> bool \<Rightarrow> nat option \<Rightarrow> bool \<Rightarrow> bool \<Rightarrow> nat" where
  "spec_style_slot in_url ctcp foreground is_bold is_underline =
     (if in_url then 57
      else if ctcp \<and> foreground = None \<and> \<not> is_bold \<and> \<not> is_underline then 2
      else
        let base = (case foreground of None \<Rightarrow> 0 | Some f \<Rightarrow> 3 + f)
        in if is_bold then 19 + base
           else if is_underline then 38 + base
           else base)"

text \<open>The specification's \<open>foreground\<close> for the code's \<^verbatim>\<open>fg\<close>, where \<open>-1\<close> is "none".\<close>

definition foreground_of :: "int \<Rightarrow> nat option" where
  "foreground_of k = (if k < 0 then None else Some (nat k))"

text \<open>The \<^verbatim>\<open>fg\<close> in force at an output position: the nick colour inside the nick span.\<close>

definition fg_at :: "nick_span \<Rightarrow> parse_state \<Rightarrow> int \<Rightarrow> int" where
  "fg_at nick st out_pos =
     (if nick_start nick \<ge> 0 \<and> nick_color nick \<ge> 0 \<and>
         out_pos \<ge> nick_start nick \<and> out_pos < nick_start nick + nick_len nick
      then nick_color nick else fg st)"



text \<open>Strings that \<^verbatim>\<open>c_str ()\<close> hands over whole, and pairs of them of one length.\<close>

definition no_nul :: "string \<Rightarrow> bool" where
  "no_nul s = (CHR 0x00 \<notin> set s)"

definition aligned :: "string \<Rightarrow> string \<Rightarrow> bool" where
  "aligned out styles = (length out = length styles \<and> no_nul out \<and> no_nul styles)"

subsection \<open>The Enchant library, as the spell checker uses it\<close>

text \<open>
  Enchant is loaded at run time and is not part of this program. A dictionary handle
  (\<^verbatim>\<open>EnchantDict *\<close>) is modelled by what its documented interface lets the program
  observe: the words its provider accepts, the words added to its session and to its
  personal word list, and the suggestions it returns (\<open>None\<close> for a null result, else the
  \<^verbatim>\<open>n_suggs\<close> strings in order). \<^verbatim>\<open>enchant_dict_check\<close> returns 0 for a word that
  the provider, the session or the personal list accepts, and a positive value otherwise.
\<close>

record EnchantDict =
  dict_tag :: string
  dict_accepts :: "string \<Rightarrow> bool"
  dict_session :: "string list"
  dict_personal :: "string list"
  dict_suggestions :: "string \<Rightarrow> string list option"

definition enchant_dict_check :: "EnchantDict \<Rightarrow> string \<Rightarrow> int" where
  "enchant_dict_check dict word =
     (if dict_accepts dict word \<or> word \<in> set (dict_session dict) \<or> word \<in> set (dict_personal dict)
      then 0 else 1)"

definition enchant_dict_add_to_session :: "EnchantDict \<Rightarrow> string \<Rightarrow> EnchantDict" where
  "enchant_dict_add_to_session dict word = dict\<lparr>dict_session := dict_session dict @ [word]\<rparr>"

definition enchant_dict_add_to_personal :: "EnchantDict \<Rightarrow> string \<Rightarrow> EnchantDict" where
  "enchant_dict_add_to_personal dict word = dict\<lparr>dict_personal := dict_personal dict @ [word]\<rparr>"

definition enchant_dict_suggest :: "EnchantDict \<Rightarrow> string \<Rightarrow> string list option" where
  "enchant_dict_suggest dict word = dict_suggestions dict word"

text \<open>
  A broker (\<^verbatim>\<open>EnchantBroker *\<close>) answers \<^verbatim>\<open>enchant_broker_request_dict\<close> with a
  dictionary for a language tag, or with null.
\<close>

record EnchantBroker =
  broker_dicts :: "string \<Rightarrow> EnchantDict option"

definition enchant_broker_request_dict :: "EnchantBroker \<Rightarrow> string \<Rightarrow> EnchantDict option" where
  "enchant_broker_request_dict broker tag = broker_dicts broker tag"

text \<open>
  GLib's \<^verbatim>\<open>g_strsplit_set (string, delimiters, -1)\<close>: the pieces between delimiter
  bytes, empty pieces included; the empty string splits into no piece at all.
\<close>

fun split_at_delims :: "(char \<Rightarrow> bool) \<Rightarrow> string \<Rightarrow> string list" where
  "split_at_delims is_delim [] = [[]]"
| "split_at_delims is_delim (c # s) =
     (if is_delim c then [] # split_at_delims is_delim s
      else (case split_at_delims is_delim s of
              [] \<Rightarrow> [[c]]
            | tok # toks \<Rightarrow> (c # tok) # toks))"

definition g_strsplit_set :: "string \<Rightarrow> string \<Rightarrow> string list" where
  "g_strsplit_set s delimiters =
     (if s = [] then [] else split_at_delims (\<lambda>c. c \<in> set delimiters) s)"

subsection \<open>The spell checker\<close>

text \<open>
  The globals \<^verbatim>\<open>have_enchant\<close>, \<^verbatim>\<open>spell_broker\<close>, \<^verbatim>\<open>spell_dicts\<close> and
  \<^verbatim>\<open>spell_session_ignores\<close>. \<open>broker_requests\<close> is not a variable of the program: it
  logs the tags passed to \<^verbatim>\<open>enchant_broker_request_dict\<close>, in order, so that what the
  program asks of the library can be stated.
\<close>

record spell_state =
  have_enchant :: bool
  spell_broker :: "EnchantBroker option"
  spell_dicts :: "EnchantDict list"
  spell_session_ignores :: "string set"
  broker_requests :: "string list"

text \<open>The state at program start, after \<^verbatim>\<open>initialize_enchant\<close> found the library or not.\<close>

definition spell_start :: "bool \<Rightarrow> spell_state" where
  "spell_start found =
     \<lparr>have_enchant = found, spell_broker = None, spell_dicts = [],
      spell_session_ignores = {}, broker_requests = []\<rparr>"

text \<open>The three \<^verbatim>\<open>enchant_dict_add_to_session\<close> calls on a dictionary of the language list.\<close>

definition seed_irc_terms :: "EnchantDict \<Rightarrow> EnchantDict" where
  "seed_irc_terms dict =
     enchant_dict_add_to_session
       (enchant_dict_add_to_session (enchant_dict_add_to_session dict ''HexChat'') ''FlexChat'')
       ''IRC''"

text \<open>
  The body of \<^verbatim>\<open>for (int i = 0; lang_array && lang_array[i]; i++)\<close> over the pieces of
  the language list.
\<close>

fun request_langs :: "EnchantBroker \<Rightarrow> string list \<Rightarrow> spell_state \<Rightarrow> spell_state" where
  "request_langs broker [] s = s"
| "request_langs broker (lang # lang_array) s =
     (if lang = [] then request_langs broker lang_array s
      else
        (let s1 = s\<lparr>broker_requests := broker_requests s @ [lang]\<rparr>
         in case enchant_broker_request_dict broker lang of
              None \<Rightarrow> request_langs broker lang_array s1
            | Some dict \<Rightarrow>
                request_langs broker lang_array
                  (s1\<lparr>spell_dicts := spell_dicts s1 @ [seed_irc_terms dict]\<rparr>)))"

text \<open>
  \<^verbatim>\<open>spell_init_broker\<close>. \<open>broker_init\<close> is the result of \<^verbatim>\<open>enchant_broker_init ()\<close>,
  \<open>hex_text_spell_langs\<close> the preference \<^verbatim>\<open>prefs.hex_text_spell_langs\<close>.
\<close>

definition spell_init_broker ::
  "EnchantBroker option \<Rightarrow> string \<Rightarrow> spell_state \<Rightarrow> spell_state" where
  "spell_init_broker broker_init hex_text_spell_langs s =
     (if \<not> have_enchant s \<or> spell_broker s \<noteq> None then s
      else
        (case broker_init of
           None \<Rightarrow> s
         | Some broker \<Rightarrow>
             (let s1 = s\<lparr>spell_broker := Some broker\<rparr>;
                  lang_array = g_strsplit_set (c_str hex_text_spell_langs) [CHR '','', CHR '' '', CHR 0x09];
                  s2 = request_langs broker lang_array s1
              in if spell_dicts s2 = [] then
                   (let s3 = s2\<lparr>broker_requests := broker_requests s2 @ [''en'']\<rparr>
                    in case enchant_broker_request_dict broker ''en'' of
                         None \<Rightarrow> s3
                       | Some dict \<Rightarrow> s3\<lparr>spell_dicts := spell_dicts s3 @ [dict]\<rparr>)
                 else s2)))"

text \<open>
  \<^verbatim>\<open>
  static void spell_cleanup(void)
  {
      if (spell_broker)
      {
          for (auto dict : spell_dicts)
              enchant_broker_free_dict(spell_broker, dict);
          spell_dicts.clear();
          enchant_broker_free(spell_broker);
          spell_broker = nullptr;
      }
      spell_session_ignores.clear();
  }
  \<close>
\<close>

definition spell_cleanup :: "spell_state \<Rightarrow> spell_state" where
  "spell_cleanup s =
     (let s1 = (if spell_broker s \<noteq> None then s\<lparr>spell_dicts := [], spell_broker := None\<rparr> else s)
      in s1\<lparr>spell_session_ignores := {}\<rparr>)"

text \<open>The loop \<^verbatim>\<open>for (auto dict : spell_dicts) if (enchant_dict_check (...) == 0) return true;\<close>.\<close>

fun check_dicts :: "EnchantDict list \<Rightarrow> string \<Rightarrow> bool" where
  "check_dicts [] word = False"
| "check_dicts (dict # dicts) word =
     (if enchant_dict_check dict word = 0 then True else check_dicts dicts word)"

text \<open>
  \<^verbatim>\<open>spell_check_word (word, len)\<close>. \<open>word\<close> is the pointer: \<open>None\<close> for null, else the
  bytes of the C string from the pointer on, of which the word is the first \<open>len\<close>.
  \<^verbatim>\<open>g_unichar_isalpha\<close> (a Unicode table) and \<^verbatim>\<open>g_utf8_get_char\<close>, which decodes the
  code point at a pointer, are GLib's and are parameters.
\<close>

definition spell_check_word ::
  "(nat \<Rightarrow> bool) \<Rightarrow> (string \<Rightarrow> nat) \<Rightarrow> spell_state \<Rightarrow> string option \<Rightarrow> nat \<Rightarrow> bool" where
  "spell_check_word g_unichar_isalpha g_utf8_get_char s word len =
     (if \<not> have_enchant s \<or> spell_dicts s = [] \<or> word = None \<or> len = 0 then True
      else
        (case word of
           None \<Rightarrow> True
         | Some p \<Rightarrow>
             if len \<ge> 4 \<and> (strncasecmp_eq p ''http'' 4 \<or> strncasecmp_eq p ''ftp:'' 4 \<or>
                            strncasecmp_eq p ''irc:'' 4)
             then True
             else if \<not> g_unichar_isalpha (g_utf8_get_char p) then True
             else
               (let w = take len p
                in if w \<in> spell_session_ignores s then True
                   else check_dicts (spell_dicts s) w)))"

text \<open>The search \<^verbatim>\<open>for (auto &existing : result) if (existing == s) { found = true; break; }\<close>.\<close>

fun found_in :: "string list \<Rightarrow> string \<Rightarrow> bool" where
  "found_in [] sg = False"
| "found_in (existing # result) sg = (if existing = sg then True else found_in result sg)"

text \<open>\<^verbatim>\<open>for (size_t i = 0; i < n_suggs && result.size() < 10; i++)\<close> over one dictionary's answer.\<close>

fun add_suggestions :: "string list \<Rightarrow> string list \<Rightarrow> string list" where
  "add_suggestions result [] = result"
| "add_suggestions result (sg # suggestions) =
     (if length result < 10
      then add_suggestions (if found_in result sg then result else result @ [sg]) suggestions
      else result)"

fun suggest_dicts :: "EnchantDict list \<Rightarrow> string \<Rightarrow> string list \<Rightarrow> string list" where
  "suggest_dicts [] word result = result"
| "suggest_dicts (dict # dicts) word result =
     (case enchant_dict_suggest dict word of
        None \<Rightarrow> suggest_dicts dicts word result
      | Some suggestions \<Rightarrow> suggest_dicts dicts word (add_suggestions result suggestions))"

definition spell_get_suggestions :: "spell_state \<Rightarrow> string option \<Rightarrow> nat \<Rightarrow> string list" where
  "spell_get_suggestions s word len =
     (if \<not> have_enchant s \<or> spell_dicts s = [] \<or> word = None \<or> len = 0 then []
      else
        (case word of
           None \<Rightarrow> []
         | Some p \<Rightarrow> suggest_dicts (spell_dicts s) (take len p) []))"

text \<open>
  \<^verbatim>\<open>
  static void spell_ignore_word(const char *word)
  {
      if (!word || !*word)
          return;
      spell_session_ignores.insert(word);
      if (have_enchant && !spell_dicts.empty())
          for (auto dict : spell_dicts)
              enchant_dict_add_to_session(dict, word, -1);
  }
  \<close>
\<close>

definition spell_ignore_word :: "spell_state \<Rightarrow> string option \<Rightarrow> spell_state" where
  "spell_ignore_word s word =
     (case word of
        None \<Rightarrow> s
      | Some p \<Rightarrow>
          if c_str p = [] then s
          else
            (let s1 = s\<lparr>spell_session_ignores := insert (c_str p) (spell_session_ignores s)\<rparr>
             in if have_enchant s1 \<and> spell_dicts s1 \<noteq> []
                then s1\<lparr>spell_dicts :=
                          map (\<lambda>dict. enchant_dict_add_to_session dict (c_str p)) (spell_dicts s1)\<rparr>
                else s1))"

subsection \<open>The word tokenizer \<^verbatim>\<open>spell_find_words\<close>\<close>

text \<open>
  GLib's \<^verbatim>\<open>g_utf8_next_char (p)\<close> is \<^verbatim>\<open>p + g_utf8_skip[*(const guchar *)p]\<close>, with
  the table of sequence lengths by lead byte. A pointer is the pair of its offset from
  \<^verbatim>\<open>text\<close> and the bytes of the C string from it on. On text that is not valid UTF-8 a
  last, cut-off sequence moves the pointer beyond the terminator, where the C code reads
  outside the string; the model takes that for the end of the text.
\<close>

definition g_utf8_skip :: "char \<Rightarrow> nat" where
  "g_utf8_skip c =
     (if byte c < 192 then 1
      else if byte c < 224 then 2
      else if byte c < 240 then 3
      else if byte c < 248 then 4
      else if byte c < 252 then 5
      else if byte c < 254 then 6
      else 1)"

type_synonym pointer = "nat \<times> string"

definition g_utf8_next_char :: "pointer \<Rightarrow> pointer" where
  "g_utf8_next_char ptr =
     (case snd ptr of
        [] \<Rightarrow> ptr
      | c # _ \<Rightarrow> (fst ptr + g_utf8_skip c, drop (g_utf8_skip c) (snd ptr)))"

lemma g_utf8_skip_pos: "0 < g_utf8_skip c"
  by (simp add: g_utf8_skip_def)

lemma g_utf8_next_char_shorter:
  "snd ptr \<noteq> [] \<Longrightarrow> length (snd (g_utf8_next_char ptr)) < length (snd ptr)"
  using g_utf8_skip_pos by (cases "snd ptr") (simp_all add: g_utf8_next_char_def)

text \<open>\<^verbatim>\<open>while (*p && !g_unichar_isalpha (g_utf8_get_char (p))) p = g_utf8_next_char (p);\<close>\<close>

function skip_non_word :: "(nat \<Rightarrow> bool) \<Rightarrow> (string \<Rightarrow> nat) \<Rightarrow> pointer \<Rightarrow> pointer" where
  "skip_non_word g_unichar_isalpha g_utf8_get_char ptr =
     (if snd ptr \<noteq> [] \<and> \<not> g_unichar_isalpha (g_utf8_get_char (snd ptr))
      then skip_non_word g_unichar_isalpha g_utf8_get_char (g_utf8_next_char ptr)
      else ptr)"
  by pat_completeness auto
termination
  by (relation "measure (\<lambda>(isalpha, getc, ptr). length (snd ptr))")
     (simp_all add: g_utf8_next_char_shorter)

declare skip_non_word.simps [simp del]

text \<open>A code point that continues a word: alphabetic, apostrophe or hyphen.\<close>

definition word_char :: "(nat \<Rightarrow> bool) \<Rightarrow> nat \<Rightarrow> bool" where
  "word_char g_unichar_isalpha u = (g_unichar_isalpha u \<or> u = 39 \<or> u = 45)"

text \<open>
  \<^verbatim>\<open>
  while (*p && (g_unichar_isalpha(g_utf8_get_char(p)) ||
                g_utf8_get_char(p) == '\'' ||
                g_utf8_get_char(p) == '-'))
      p = g_utf8_next_char(p);
  \<close>
\<close>

function skip_word :: "(nat \<Rightarrow> bool) \<Rightarrow> (string \<Rightarrow> nat) \<Rightarrow> pointer \<Rightarrow> pointer" where
  "skip_word g_unichar_isalpha g_utf8_get_char ptr =
     (if snd ptr \<noteq> [] \<and> word_char g_unichar_isalpha (g_utf8_get_char (snd ptr))
      then skip_word g_unichar_isalpha g_utf8_get_char (g_utf8_next_char ptr)
      else ptr)"
  by pat_completeness auto
termination
  by (relation "measure (\<lambda>(isalpha, getc, ptr). length (snd ptr))")
     (simp_all add: g_utf8_next_char_shorter)

declare skip_word.simps [simp del]

lemma skip_non_word_length:
  "length (snd (skip_non_word isalpha getc ptr)) \<le> length (snd ptr)"
proof (induction isalpha getc ptr rule: skip_non_word.induct)
  case (1 isalpha getc ptr)
  show ?case
  proof (cases "snd ptr \<noteq> [] \<and> \<not> isalpha (getc (snd ptr))")
    case True
    with 1 g_utf8_next_char_shorter [of ptr] show ?thesis
      by (subst skip_non_word.simps) simp
  next
    case False
    then show ?thesis by (subst skip_non_word.simps) auto
  qed
qed

lemma skip_word_length:
  "length (snd (skip_word isalpha getc ptr)) \<le> length (snd ptr)"
proof (induction isalpha getc ptr rule: skip_word.induct)
  case (1 isalpha getc ptr)
  show ?case
  proof (cases "snd ptr \<noteq> [] \<and> word_char isalpha (getc (snd ptr))")
    case True
    with 1 g_utf8_next_char_shorter [of ptr] show ?thesis
      by (subst skip_word.simps) simp
  next
    case False
    then show ?thesis by (subst skip_word.simps) auto
  qed
qed

lemma skip_non_word_stops:
  "snd (skip_non_word isalpha getc ptr) = []
   \<or> isalpha (getc (snd (skip_non_word isalpha getc ptr)))"
proof (induction isalpha getc ptr rule: skip_non_word.induct)
  case (1 isalpha getc ptr)
  show ?case
  proof (cases "snd ptr \<noteq> [] \<and> \<not> isalpha (getc (snd ptr))")
    case True
    with 1 show ?thesis by (subst (1 2) skip_non_word.simps) simp
  next
    case False
    then show ?thesis by (subst (1 2) skip_non_word.simps) auto
  qed
qed

lemma skip_word_shorter:
  assumes "snd ptr \<noteq> []" and "isalpha (getc (snd ptr))"
  shows "length (snd (skip_word isalpha getc ptr)) < length (snd ptr)"
proof -
  from assms have "skip_word isalpha getc ptr = skip_word isalpha getc (g_utf8_next_char ptr)"
    by (subst skip_word.simps) (simp add: word_char_def)
  moreover have "length (snd (skip_word isalpha getc (g_utf8_next_char ptr)))
                 \<le> length (snd (g_utf8_next_char ptr))"
    by (rule skip_word_length)
  moreover have "length (snd (g_utf8_next_char ptr)) < length (snd ptr)"
    using assms(1) by (rule g_utf8_next_char_shorter)
  ultimately show ?thesis by simp
qed

text \<open>
  \<^verbatim>\<open>struct WordSpan { int start; int end; bool misspelled; };\<close> The offsets are those
  of an \<^verbatim>\<open>Fl_Input\<close> value, whose size is an \<^verbatim>\<open>int\<close>.
\<close>

record WordSpan =
  span_start :: int
  span_end :: int
  misspelled :: bool

text \<open>The loop \<^verbatim>\<open>while (*p) { ... }\<close> of \<^verbatim>\<open>spell_find_words\<close>, from the pointer \<open>ptr\<close>.\<close>

function find_words_from ::
  "(nat \<Rightarrow> bool) \<Rightarrow> (string \<Rightarrow> nat) \<Rightarrow> spell_state \<Rightarrow> pointer \<Rightarrow> WordSpan list" where
  "find_words_from g_unichar_isalpha g_utf8_get_char s ptr =
     (if snd ptr = [] then []
      else
        (let word_start = skip_non_word g_unichar_isalpha g_utf8_get_char ptr
         in if snd word_start = [] then []
            else
              (let word_end = skip_word g_unichar_isalpha g_utf8_get_char word_start;
                   len = fst word_end - fst word_start
               in (if len > 0 then
                     [\<lparr>span_start = int (fst word_start), span_end = int (fst word_end),
                       misspelled = \<not> spell_check_word g_unichar_isalpha g_utf8_get_char s
                                         (Some (snd word_start)) len\<rparr>]
                   else [])
                  @ find_words_from g_unichar_isalpha g_utf8_get_char s word_end)))"
  by pat_completeness auto
termination
proof (relation "measure (\<lambda>(isalpha, getc, s, ptr). length (snd ptr))")
  show "wf (measure (\<lambda>(isalpha, getc, s, ptr). length (snd ptr)))" by simp
next
  fix isalpha :: "nat \<Rightarrow> bool" and getc :: "string \<Rightarrow> nat" and s :: spell_state
    and ptr word_start word_end :: pointer and len :: nat
  assume "word_start = skip_non_word isalpha getc ptr" and ne: "snd word_start \<noteq> []"
    and "word_end = skip_word isalpha getc word_start"
  then have "isalpha (getc (snd word_start))"
    using skip_non_word_stops [of isalpha getc ptr] by simp
  with ne have "length (snd (skip_word isalpha getc word_start)) < length (snd word_start)"
    by (rule skip_word_shorter)
  moreover have "length (snd word_start) \<le> length (snd ptr)"
    using \<open>word_start = skip_non_word isalpha getc ptr\<close> skip_non_word_length by simp
  ultimately show "((isalpha, getc, s, word_end), (isalpha, getc, s, ptr))
                   \<in> measure (\<lambda>(isalpha, getc, s, ptr). length (snd ptr))"
    using \<open>word_end = skip_word isalpha getc word_start\<close> by simp
qed

declare find_words_from.simps [simp del]

text \<open>\<^verbatim>\<open>spell_find_words (text)\<close>; \<open>None\<close> is the null pointer.\<close>

definition spell_find_words ::
  "(nat \<Rightarrow> bool) \<Rightarrow> (string \<Rightarrow> nat) \<Rightarrow> spell_state \<Rightarrow> string option \<Rightarrow> WordSpan list" where
  "spell_find_words g_unichar_isalpha g_utf8_get_char s text =
     (case text of
        None \<Rightarrow> []
      | Some t \<Rightarrow>
          if c_str t = [] then []
          else find_words_from g_unichar_isalpha g_utf8_get_char s (0, c_str t))"

text \<open>
  The suggestion list in the words of the specification (section 4.7): the candidates of
  the loaded dictionaries in order, each dictionary's in the order returned, a candidate
  kept only where it first occurs, and no more than 10 of them.
\<close>

fun unique_in_order :: "string list \<Rightarrow> string list \<Rightarrow> string list" where
  "unique_in_order seen [] = seen"
| "unique_in_order seen (x # xs) =
     (if x \<in> set seen then unique_in_order seen xs else unique_in_order (seen @ [x]) xs)"

definition dict_candidates :: "string \<Rightarrow> EnchantDict \<Rightarrow> string list" where
  "dict_candidates word dict = (case enchant_dict_suggest dict word of None \<Rightarrow> [] | Some l \<Rightarrow> l)"

definition spec_suggest :: "EnchantDict list \<Rightarrow> string \<Rightarrow> string list" where
  "spec_suggest dicts word = take 10 (unique_in_order [] (concat (map (dict_candidates word) dicts)))"

text \<open>Dictionaries to run the functions on: a word list and a table of suggestions.\<close>

definition word_list_dict :: "string \<Rightarrow> string list \<Rightarrow> (string \<times> string list) list \<Rightarrow> EnchantDict" where
  "word_list_dict tag ws table =
     \<lparr>dict_tag = tag, dict_accepts = (\<lambda>w. w \<in> set ws), dict_session = [], dict_personal = [],
      dict_suggestions = map_of table\<rparr>"

text \<open>GLib's two functions on ASCII text, to run the spell checker on examples.\<close>

definition ascii_isalpha :: "nat \<Rightarrow> bool" where
  "ascii_isalpha u = ((65 \<le> u \<and> u \<le> 90) \<or> (97 \<le> u \<and> u \<le> 122))"

definition ascii_get_char :: "string \<Rightarrow> nat" where
  "ascii_get_char p = (case p of [] \<Rightarrow> 0 | c # _ \<Rightarrow> byte c)"







text \<open>
  What holds of the globals in every state the program reaches: dictionaries are only
  held while there is a broker.
\<close>

definition spell_wf :: "spell_state \<Rightarrow> bool" where
  "spell_wf s = (spell_broker s = None \<longrightarrow> spell_dicts s = [])"

text \<open>A broker that has an English dictionary only, which knows the word \<^verbatim>\<open>hello\<close>.\<close>

definition english_only_broker :: EnchantBroker where
  "english_only_broker = \<lparr>broker_dicts = map_of [(''en'', word_list_dict ''en'' [''hello''] [])]\<rparr>"

subsection \<open>The palette store\<close>

text \<open>
  \<^verbatim>\<open>struct PaletteColor { unsigned char r, g, b; };\<close> and the array
  \<^verbatim>\<open>palette_colors[MAX_COL + 1]\<close>, a list of \<open>MAX_COL + 1\<close> entries. The fields are
  named \<open>col_r\<close>, \<open>col_g\<close>, \<open>col_b\<close> for the source's \<^verbatim>\<open>r\<close>, \<^verbatim>\<open>g\<close>, \<^verbatim>\<open>b\<close>.
\<close>

record PaletteColor =
  col_r :: "8 word"
  col_g :: "8 word"
  col_b :: "8 word"

definition MAX_COL :: nat where
  "MAX_COL = 41"

definition rgb :: "nat \<Rightarrow> nat \<Rightarrow> nat \<Rightarrow> PaletteColor" where
  "rgb x y z = \<lparr>col_r = of_nat x, col_g = of_nat y, col_b = of_nat z\<rparr>"

text \<open>The initialiser of \<^verbatim>\<open>palette_colors\<close>: the colours of a store never loaded.\<close>

definition initial_palette_colors :: "PaletteColor list" where
  "initial_palette_colors =
     [rgb 211 215 207, rgb 46 52 54, rgb 52 101 164, rgb 78 154 6,
      rgb 204 0 0, rgb 143 57 2, rgb 92 53 102, rgb 206 92 0,
      rgb 196 160 0, rgb 115 210 22, rgb 17 168 121, rgb 88 161 157,
      rgb 87 121 158, rgb 160 66 101, rgb 85 87 83, rgb 136 138 133,
      rgb 211 215 207, rgb 46 52 54, rgb 52 101 164, rgb 78 154 6,
      rgb 204 0 0, rgb 143 57 2, rgb 92 53 102, rgb 206 92 0,
      rgb 196 160 0, rgb 115 210 22, rgb 17 168 121, rgb 88 161 157,
      rgb 87 121 158, rgb 160 66 101, rgb 85 87 83, rgb 136 138 133,
      rgb 211 215 207, rgb 32 74 135, rgb 37 41 43, rgb 250 250 248,
      rgb 143 57 2, rgb 52 101 164, rgb 78 154 6, rgb 206 92 0,
      rgb 136 138 133, rgb 164 0 0]"

record palette_state =
  palette_colors :: "PaletteColor list"
  default_palette_colors :: "PaletteColor list"
  palette_defaults_saved :: bool

definition palette_save_defaults :: "palette_state \<Rightarrow> palette_state" where
  "palette_save_defaults st =
     (if \<not> palette_defaults_saved st
      then st\<lparr>default_palette_colors := palette_colors st, palette_defaults_saved := True\<rparr>
      else st)"

text \<open>
  \<^verbatim>\<open>printf\<close>'s \<^verbatim>\<open>%d\<close>: the decimal digits of the value, with no leading zero, after a
  minus sign when it is negative.
\<close>

definition digit_char :: "nat \<Rightarrow> char" where
  "digit_char d = char_of (48 + d)"

function decimal :: "nat \<Rightarrow> string" where
  "decimal n = (if n < 10 then [digit_char n] else decimal (n div 10) @ [digit_char (n mod 10)])"
  by pat_completeness auto
termination
  by (relation "measure id") simp_all

declare decimal.simps [simp del]

definition printf_d :: "int \<Rightarrow> string" where
  "printf_d i = (if i < 0 then CHR ''-'' # decimal (nat (- i)) else decimal (nat i))"

text \<open>\<^verbatim>\<open>fprintf (fp, "color_%d = %d %d %d\n", n, c.r, c.g, c.b)\<close>; the bytes are promoted to \<^verbatim>\<open>int\<close>.\<close>

definition color_line :: "int \<Rightarrow> PaletteColor \<Rightarrow> string" where
  "color_line n c =
     ''color_'' @ printf_d n @ '' = '' @ printf_d (uint (col_r c)) @ '' '' @
     printf_d (uint (col_g c)) @ '' '' @ printf_d (uint (col_b c)) @ [CHR 0x0A]"

text \<open>
  The text \<^verbatim>\<open>palette_save\<close> writes: the loop over \<open>0..31\<close> and the loop over
  \<open>32..MAX_COL\<close>, which writes the index \<open>256 + (i - 32)\<close>.
\<close>

definition palette_save_text :: "PaletteColor list \<Rightarrow> string" where
  "palette_save_text colors =
     concat (map (\<lambda>i. color_line (int i) (colors ! i)) [0..<32]) @
     concat (map (\<lambda>i. color_line (256 + (int i - 32)) (colors ! i)) [32..<MAX_COL + 1])"

text \<open>
  \<^verbatim>\<open>palette_save\<close> on the file \<^verbatim>\<open>colors.conf\<close>, whose content is \<open>file\<close> (\<open>None\<close> when
  there is none). \<open>writable\<close> says whether \<^verbatim>\<open>fopen (path, "w")\<close> succeeds; when it does
  not the function returns and the file is as before.
\<close>

definition palette_save :: "bool \<Rightarrow> palette_state \<Rightarrow> string option \<Rightarrow> string option" where
  "palette_save writable st file =
     (if \<not> writable then file else Some (palette_save_text (palette_colors st)))"

text \<open>C's \<^verbatim>\<open>isspace\<close> in the "C" locale, which \<^verbatim>\<open>sscanf\<close> uses for white space.\<close>

definition c_isspace :: "char \<Rightarrow> bool" where
  "c_isspace c = (c = CHR '' '' \<or> (9 \<le> byte c \<and> byte c \<le> 13))"

definition decimal_value :: "string \<Rightarrow> nat" where
  "decimal_value ds = foldl (\<lambda>a c. 10 * a + (byte c - 48)) 0 ds"

text \<open>
  \<^verbatim>\<open>sscanf\<close>'s \<^verbatim>\<open>%d\<close>: white space is skipped, then an optional sign and at least one
  digit are read; \<open>None\<close> is a matching failure. The value is the number read; a number
  that does not fit an \<^verbatim>\<open>int\<close> is outside what C defines for \<^verbatim>\<open>sscanf\<close>.
\<close>

definition scan_d :: "string \<Rightarrow> (int \<times> string) option" where
  "scan_d s =
     (let s1 = dropWhile c_isspace s;
          negative = (take 1 s1 = ''-'');
          s2 = (if take 1 s1 = ''-'' \<or> take 1 s1 = ''+'' then drop 1 s1 else s1);
          ds = takeWhile g_ascii_isdigit s2
      in if ds = [] then None
         else Some (if negative then - int (decimal_value ds) else int (decimal_value ds),
                    dropWhile g_ascii_isdigit s2))"

text \<open>An ordinary character of the format: the next input byte must be that very byte.\<close>

definition scan_literal :: "string \<Rightarrow> string \<Rightarrow> string option" where
  "scan_literal lit s = (if take (length lit) s = lit then Some (drop (length lit) s) else None)"

text \<open>
  \<^verbatim>\<open>sscanf (line, "color_%d = %d %d %d", &idx, &r, &g, &b) == 4\<close>: \<open>Some\<close> of the four
  values when all four conversions succeed. White space in the format matches any amount
  of white space in the input, none included.
\<close>

definition sscanf_color :: "string \<Rightarrow> (int \<times> int \<times> int \<times> int) option" where
  "sscanf_color line =
     (case scan_literal ''color_'' line of
        None \<Rightarrow> None
      | Some s1 \<Rightarrow>
          (case scan_d s1 of
             None \<Rightarrow> None
           | Some (idx, s2) \<Rightarrow>
               (case scan_literal ''='' (dropWhile c_isspace s2) of
                  None \<Rightarrow> None
                | Some s3 \<Rightarrow>
                    (case scan_d (dropWhile c_isspace s3) of
                       None \<Rightarrow> None
                     | Some (x, s4) \<Rightarrow>
                         (case scan_d (dropWhile c_isspace s4) of
                            None \<Rightarrow> None
                          | Some (y, s5) \<Rightarrow>
                              (case scan_d (dropWhile c_isspace s5) of
                                 None \<Rightarrow> None
                               | Some (z, s6) \<Rightarrow> Some (idx, x, y, z)))))))"

text \<open>
  The body of the loop of \<^verbatim>\<open>palette_load\<close> for one line:
  \<^verbatim>\<open>
  if (sscanf(line, "color_%d = %d %d %d", &idx, &r, &g, &b) == 4)
  {
      if (idx >= 256)
          idx = 32 + (idx - 256);
      if (idx >= 0 && idx <= MAX_COL)
      {
          palette_colors[idx].r = (unsigned char)r;
          palette_colors[idx].g = (unsigned char)g;
          palette_colors[idx].b = (unsigned char)b;
      }
  }
  \<close>
  \<open>line\<close> is the buffer \<^verbatim>\<open>fgets\<close> filled, read as a C string.
\<close>

definition palette_load_line :: "string \<Rightarrow> PaletteColor list \<Rightarrow> PaletteColor list" where
  "palette_load_line line colors =
     (case sscanf_color (c_str line) of
        None \<Rightarrow> colors
      | Some (idx, x, y, z) \<Rightarrow>
          (let idx' = (if idx \<ge> 256 then 32 + (idx - 256) else idx)
           in if idx' \<ge> 0 \<and> idx' \<le> int MAX_COL
              then colors[nat idx' := \<lparr>col_r = of_int x, col_g = of_int y, col_b = of_int z\<rparr>]
              else colors))"

text \<open>
  \<^verbatim>\<open>fgets (line, size, fp)\<close> reads at most \<open>size - 1\<close> bytes and stops after a newline;
  \<open>fgets_line n\<close> is what it stores, for \<open>n = size - 1\<close>, from the unread rest of the file.
\<close>

fun fgets_line :: "nat \<Rightarrow> string \<Rightarrow> string" where
  "fgets_line 0 s = []"
| "fgets_line (Suc n) [] = []"
| "fgets_line (Suc n) (c # s) = (if c = CHR 0x0A then [c] else c # fgets_line n s)"

lemma fgets_line_nonempty: "s \<noteq> [] \<Longrightarrow> fgets_line (Suc n) s \<noteq> []"
  by (cases s) simp_all

text \<open>\<^verbatim>\<open>while (fgets (line, sizeof (line), fp)) { ... }\<close> with \<^verbatim>\<open>char line[256]\<close>.\<close>

function palette_load_lines :: "string \<Rightarrow> PaletteColor list \<Rightarrow> PaletteColor list" where
  "palette_load_lines content colors =
     (if content = [] then colors
      else palette_load_lines (drop (length (fgets_line 255 content)) content)
             (palette_load_line (fgets_line 255 content) colors))"
  by pat_completeness auto
termination
proof (relation "measure (\<lambda>(content, colors). length content)")
  show "wf (measure (\<lambda>(content, colors). length content))" by simp
next
  fix content :: string and colors :: "PaletteColor list"
  assume "content \<noteq> []"
  then have "fgets_line 255 content \<noteq> []"
    using fgets_line_nonempty [of content 254] by simp
  with \<open>content \<noteq> []\<close>
  show "((drop (length (fgets_line 255 content)) content,
          palette_load_line (fgets_line 255 content) colors), (content, colors))
        \<in> measure (\<lambda>(content, colors). length content)"
    by simp
qed

declare palette_load_lines.simps [simp del]

text \<open>
  \<^verbatim>\<open>palette_load\<close>: the defaults are saved first; when \<^verbatim>\<open>fopen (path, "r")\<close> fails
  (\<open>file = None\<close>) nothing else happens.
\<close>

definition palette_load :: "string option \<Rightarrow> palette_state \<Rightarrow> palette_state" where
  "palette_load file st =
     (let st1 = palette_save_defaults st
      in case file of
           None \<Rightarrow> st1
         | Some content \<Rightarrow>
             st1\<lparr>palette_colors := palette_load_lines content (palette_colors st1)\<rparr>)"

text \<open>A store that was never loaded.\<close>

definition fresh_palette :: palette_state where
  "fresh_palette =
     \<lparr>palette_colors = initial_palette_colors,
      default_palette_colors = replicate (MAX_COL + 1) (rgb 0 0 0),
      palette_defaults_saved = False\<rparr>"

text \<open>The index \<^verbatim>\<open>palette_save\<close> writes for the entry \<open>i\<close> of the array.\<close>

definition file_index :: "nat \<Rightarrow> int" where
  "file_index i = (if i < 32 then int i else 256 + (int i - 32))"

section \<open>Properties\<close>

subsection \<open>The transcoder keeps text and styles aligned\<close>

lemma style_tag_eq_iff: "style_tag k = c \<longleftrightarrow> (65 + k) mod 256 = of_char c"
  by (simp add: style_tag_def char_of_eq_iff take_bit_eq_mod)

lemma style_tag_not_nul: "0 \<le> k \<Longrightarrow> k < 191 \<Longrightarrow> style_tag k \<noteq> CHR 0x00"
  by (simp add: style_tag_eq_iff)

lemma style_for_state_not_nul: "style_for_state st h \<noteq> CHR 0x00"
  by (simp add: style_for_state_def Let_def style_tag_not_nul)

text \<open>What every turn of the scan keeps holds when the loop ends.\<close>

lemma scan_loop_invariant:
  assumes keep: "\<And>st out_pos ch rest out styles st' out_pos' p' out' styles'.
      Inv st (ch # rest) out styles \<Longrightarrow>
      scan_step nick st out_pos ch rest out styles = (st', out_pos', p', out', styles') \<Longrightarrow>
      Inv st' p' out' styles'"
    and "Inv st p out styles"
  shows "\<exists>st'. Inv st' [] (fst (scan_loop nick st out_pos p out styles))
                         (snd (scan_loop nick st out_pos p out styles))"
  using assms(2)
proof (induction "length p" arbitrary: p st out_pos out styles rule: less_induct)
  case less
  show ?case
  proof (cases p)
    case Nil
    with less.prems show ?thesis by auto
  next
    case (Cons ch rest)
    obtain st' out_pos' p' out' styles'
      where step: "scan_step nick st out_pos ch rest out styles = (st', out_pos', p', out', styles')"
      by (cases "scan_step nick st out_pos ch rest out styles") blast
    from step have "length p' \<le> length rest" by (rule scan_step_shorter)
    with Cons have shorter: "length p' < length p" by simp
    from less.prems Cons have "Inv st (ch # rest) out styles" by simp
    then have "Inv st' p' out' styles'" using step by (rule keep)
    with less.hyps [OF shorter]
    have "\<exists>st''. Inv st'' [] (fst (scan_loop nick st' out_pos' p' out' styles'))
                           (snd (scan_loop nick st' out_pos' p' out' styles'))"
      by simp
    with Cons step show ?thesis by simp
  qed
qed

lemma no_nul_c_str: "no_nul (c_str s)"
  by (auto simp add: no_nul_def c_str_def dest: set_takeWhileD)

lemma c_str_no_nul: "no_nul s \<Longrightarrow> c_str s = s"
  by (simp add: no_nul_def c_str_def takeWhile_eq_all_conv) metis

lemma no_nul_skip_digits: "no_nul p \<Longrightarrow> no_nul (skip_digits n p)"
  by (induction n p rule: skip_digits.induct) (auto simp add: no_nul_def)

lemma no_nul_skip_color_args: "no_nul p \<Longrightarrow> no_nul (skip_color_args p)"
proof -
  assume a: "no_nul p"
  then have b: "no_nul (skip_digits 2 p)" by (rule no_nul_skip_digits)
  show ?thesis
  proof (cases "skip_digits 2 p")
    case Nil
    then show ?thesis by (simp add: skip_color_args_def no_nul_def)
  next
    case (Cons c p2)
    with b have "no_nul p2" by (simp add: no_nul_def)
    then have "no_nul (skip_digits 2 p2)" by (rule no_nul_skip_digits)
    with b Cons show ?thesis by (simp add: skip_color_args_def)
  qed
qed

lemma no_nul_simps:
  "no_nul []"
  "no_nul (c # s) = (c \<noteq> CHR 0x00 \<and> no_nul s)"
  "no_nul (s @ t) = (no_nul s \<and> no_nul t)"
  by (auto simp add: no_nul_def)

lemma no_nul_replicate: "c \<noteq> CHR 0x00 \<Longrightarrow> no_nul (replicate n c)"
  by (simp add: no_nul_def)

lemma no_nul_takeWhile: "no_nul s \<Longrightarrow> no_nul (takeWhile P s)"
  unfolding no_nul_def by (blast dest: set_takeWhileD)

lemma no_nul_dropWhile: "no_nul s \<Longrightarrow> no_nul (dropWhile P s)"
  unfolding no_nul_def by (blast dest: set_dropWhileD)

lemma no_nul_take: "no_nul s \<Longrightarrow> no_nul (take n s)"
  unfolding no_nul_def by (blast dest: in_set_takeD)

lemma no_nul_drop: "no_nul s \<Longrightarrow> no_nul (drop n s)"
  unfolding no_nul_def by (blast dest: in_set_dropD)

lemma scan_step_aligned:
  assumes step: "scan_step nick st out_pos ch rest out styles = (st', out_pos', p', out', styles')"
    and p: "no_nul (ch # rest)" and al: "aligned out styles"
  shows "no_nul p' \<and> aligned out' styles'"
proof -
  from p have rest: "no_nul rest" and ch: "ch \<noteq> CHR 0x00" by (simp_all add: no_nul_simps)
  have a1: "no_nul (skip_color_args rest)" using rest by (rule no_nul_skip_color_args)
  have a2: "no_nul (dropWhile url_char (ch # rest))" using p by (rule no_nul_dropWhile)
  have a3: "no_nul (takeWhile url_char (ch # rest))" using p by (rule no_nul_takeWhile)
  have a4: "no_nul (replicate n (style_for_state s h))" for n s h
    by (rule no_nul_replicate) (rule style_for_state_not_nul)
  note facts = rest ch a1 a2 a3 a4 style_for_state_not_nul
  from al have "length out = length styles" "no_nul out" "no_nul styles"
    by (simp_all add: aligned_def)
  with step facts show ?thesis
    unfolding scan_step_def Let_def aligned_def
    by (auto simp add: no_nul_simps simp del: takeWhile.simps dropWhile.simps split: if_splits)
qed

lemma scan_loop_aligned:
  assumes "no_nul p" and "aligned out styles"
  shows "aligned (fst (scan_loop nick st out_pos p out styles))
                 (snd (scan_loop nick st out_pos p out styles))"
proof -
  let ?Inv = "\<lambda>(st :: parse_state) p out styles. no_nul p \<and> aligned out styles"
  have "\<exists>st'. ?Inv st' [] (fst (scan_loop nick st out_pos p out styles))
                          (snd (scan_loop nick st out_pos p out styles))"
  proof (rule scan_loop_invariant [where Inv = ?Inv])
    show "no_nul p'' \<and> aligned out'' styles''"
      if "no_nul (ch # rest) \<and> aligned out' styles'"
        and "scan_step nick st' out_pos' ch rest out' styles' = (st'', out_pos'', p'', out'', styles'')"
      for st' out_pos' ch rest out' styles' st'' out_pos'' p'' out'' styles''
      using that scan_step_aligned by blast
  qed (use assms in simp)
  then show ?thesis by simp
qed

lemma timestamp_prefix_aligned:
  "aligned (fst (timestamp_prefix hs tb)) (snd (timestamp_prefix hs tb))"
  by (simp add: timestamp_prefix_def aligned_def no_nul_simps no_nul_c_str no_nul_replicate
      split: option.split)

lemma append_text_strings_aligned:
  "aligned (fst (append_text_strings hs tb text)) (snd (append_text_strings hs tb text))"
proof -
  define msg where "msg = (case text of None \<Rightarrow> [] | Some t \<Rightarrow> c_str t)"
  define stamped where "stamped = timestamp_prefix hs tb"
  define body where "body = drop 8 msg"
  define len where "len = (if body \<noteq> [] \<and> last body = CHR 0x01 then length body - 1 else length body)"
  define built where "built =
            (if take 8 msg = action_marker then
                (fst stamped @ ''* '' @ take len body,
                    snd stamped @ ''BB'' @ replicate len CHR ''B'')
             else scan_loop (detect_nick msg) initial_parse_state (int (length (fst stamped))) msg (fst stamped) (snd stamped))"
  have msg: "no_nul msg"
    by (simp add: msg_def no_nul_simps no_nul_c_str split: option.split)
  have st: "aligned (fst stamped) (snd stamped)"
    unfolding stamped_def by (rule timestamp_prefix_aligned)
  have "len \<le> length body" by (simp add: len_def)
  then have len: "length (take len body) = len" by simp
  have body: "no_nul (take len body)"
    unfolding body_def using msg by (intro no_nul_take no_nul_drop)
  have built: "aligned (fst built) (snd built)"
  proof (cases "take 8 msg = action_marker")
    case True
    with st body len show ?thesis
      by (simp add: built_def aligned_def no_nul_simps no_nul_replicate)
  next
    case False
    with scan_loop_aligned [OF msg st] show ?thesis by (simp add: built_def)
  qed
  have res: "append_text_strings hs tb text =
      (if fst built = [] \<or> last (fst built) \<noteq> CHR 0x0A
         then (fst built @ [CHR 0x0A], snd built @ ''A'')
         else built)"
    unfolding append_text_strings_def built_def len_def body_def stamped_def msg_def Let_def
    by (rule refl)
  from built show ?thesis
    unfolding res by (simp add: aligned_def no_nul_simps)
qed


text \<open>
  What holds of every call: for every message and every preferences setting the style
  string that \<^verbatim>\<open>append_text\<close> builds has the length of the visible-text string, timestamp
  run and trailing newline included, and neither string holds a NUL byte, so that
  \<^verbatim>\<open>c_str ()\<close> hands both over whole.
\<close>

lemma append_text_strings_style_length:
  "length (snd (append_text_strings hex_stamp_text strftime_result text))
     = length (fst (append_text_strings hex_stamp_text strftime_result text))
   \<and> c_str (fst (append_text_strings hex_stamp_text strftime_result text))
     = fst (append_text_strings hex_stamp_text strftime_result text)
   \<and> c_str (snd (append_text_strings hex_stamp_text strftime_result text))
     = snd (append_text_strings hex_stamp_text strftime_result text)"
proof -
  let ?built = "append_text_strings hex_stamp_text strftime_result text"
  have "aligned (fst ?built) (snd ?built)" by (rule append_text_strings_aligned)
  then show ?thesis by (simp add: aligned_def c_str_no_nul)
qed

text \<open>As long as the buffers are only appended to, they stay of one length.\<close>

lemma run_session_appends_aligned:
  assumes "length s = length b" and "list_all is_append calls"
  shows "\<exists>b' s'. run_session (Some \<lparr>buffer = Some b, style_buffer = Some s\<rparr>) calls
                  = Some \<lparr>buffer = Some b', style_buffer = Some s'\<rparr> \<and> length s' = length b'"
  using assms
proof (induction calls arbitrary: b s)
  case Nil
  then show ?case by simp
next
  case (Cons call calls)
  from Cons.prems(2) obtain hs tb t where call: "call = Append_text hs tb t"
    by (cases call) simp_all
  let ?built = "append_text_strings hs tb t"
  have al: "aligned (fst ?built) (snd ?built)" by (rule append_text_strings_aligned)
  then have whole: "c_str (fst ?built) = fst ?built" "c_str (snd ?built) = snd ?built"
    and len: "length (fst ?built) = length (snd ?built)"
    by (simp_all add: aligned_def c_str_no_nul)
  from Cons.prems(1) whole
  have step: "append_text hs tb (Some \<lparr>buffer = Some b, style_buffer = Some s\<rparr>) t
        = Some \<lparr>buffer = Some (b @ fst ?built), style_buffer = Some (s @ snd ?built)\<rparr>"
    by (simp add: append_text_def Let_def)
  from Cons.prems(1) len have "length (s @ snd ?built) = length (b @ fst ?built)" by simp
  moreover from Cons.prems(2) have "list_all is_append calls" by simp
  ultimately have "\<exists>b' s'. run_session
        (Some \<lparr>buffer = Some (b @ fst ?built), style_buffer = Some (s @ snd ?built)\<rparr>) calls
      = Some \<lparr>buffer = Some b', style_buffer = Some s'\<rparr> \<and> length s' = length b'"
    by (rule Cons.IH)
  with call step show ?case by simp
qed

text \<open>
  C1 fails on the code over the life of a buffer. Every call of \<^verbatim>\<open>append_text\<close> builds
  a style string as long as its text (\<open>append_text_strings_style_length\<close>), but
  \<^verbatim>\<open>fe_text_clear\<close> empties the text buffer only. After \<^verbatim>\<open>Hello world\<close> is appended
  to a new session and the text is cleared, appending \<^verbatim>\<open>hi\<close> leaves 3 bytes of text
  and 12 style tags: the test \<^verbatim>\<open>style_buffer->length () <= buffer->length ()\<close> fails and
  the styles of \<^verbatim>\<open>hi\<close> are not appended at all. In the other order the test holds and
  the 12 new tags are appended behind 3 stale ones: 12 bytes of text and 15 style tags.
\<close>

theorem fe_text_clear_breaks_style_length:
  "run_session (Some new_session_ui)
     [Append_text False None (Some ''Hello world''), Text_clear, Append_text False None (Some ''hi'')]
     = Some \<lparr>buffer = Some (''hi'' @ [CHR 0x0A]), style_buffer = Some ''AAAAAAAAAAAA''\<rparr>
   \<and> run_session (Some new_session_ui)
     [Append_text False None (Some ''hi''), Text_clear, Append_text False None (Some ''Hello world'')]
     = Some \<lparr>buffer = Some (''Hello world'' @ [CHR 0x0A]),
             style_buffer = Some (''AAA'' @ ''AAAAAAAAAAAA'')\<rparr>"
  by code_simp

theorem fe_text_clear_breaks_style_length_witness:
  "map_option (\<lambda>u. (map_option length (buffer u), map_option length (style_buffer u)))
     (run_session (Some new_session_ui)
        [Append_text False None (Some ''Hello world''), Text_clear,
         Append_text False None (Some ''hi'')])
     = Some (Some 3, Some 12)
   \<and> map_option (\<lambda>u. (map_option length (buffer u), map_option length (style_buffer u)))
     (run_session (Some new_session_ui)
        [Append_text False None (Some ''hi''), Text_clear,
         Append_text False None (Some ''Hello world'')])
     = Some (Some 12, Some 15)"
  using fe_text_clear_breaks_style_length by simp

subsection \<open>Style precedence and colour codes\<close>

lemma style_tag_values:
  "style_tag 0 = CHR ''A''" "style_tag 1 = CHR ''B''" "style_tag 2 = CHR ''C''"
  "style_tag 19 = CHR ''T''" "style_tag 38 = CHR ''g''" "style_tag 57 = CHR ''z''"
  by (simp_all add: style_tag_eq_iff)

lemma style_for_state_spec:
  assumes "fg st < 16"
  shows "style_for_state st hyperlink =
         style_tag (int (spec_style_slot hyperlink (in_ctcp st) (foreground_of (fg st))
                          (bold st) (underline st)))"
  using assms
  by (auto simp add: style_for_state_def spec_style_slot_def foreground_of_def Let_def
      style_tag_values)

lemma scan_step_visible:
  assumes "\<not> is_control_code ch" and "\<not> looks_like_url (ch # rest)"
    and "fg st < 16" and "nick_color nick < 16"
  shows "scan_step nick st out_pos ch rest out styles =
         (st, out_pos + 1, rest, out @ [ch],
          styles @ [style_tag (int (spec_style_slot False (in_ctcp st)
                      (foreground_of (fg_at nick st out_pos)) (bold st) (underline st)))])"
proof -
  let ?here = "st\<lparr>fg := fg_at nick st out_pos\<rparr>"
  have "fg ?here < 16" using assms(3,4) by (simp add: fg_at_def)
  from style_for_state_spec [OF this, of False]
  have "style_for_state ?here False =
        style_tag (int (spec_style_slot False (in_ctcp st)
                      (foreground_of (fg_at nick st out_pos)) (bold st) (underline st)))"
    by simp
  moreover have "(if nick_start nick \<ge> 0 \<and> nick_color nick \<ge> 0 \<and>
         out_pos \<ge> nick_start nick \<and> out_pos < nick_start nick + nick_len nick
      then st\<lparr>fg := nick_color nick\<rparr> else st) = ?here"
    by (simp add: fg_at_def)
  ultimately show ?thesis
    using assms(1,2) by (simp add: scan_step_def is_control_code_def Let_def)
qed

lemma scan_step_url:
  assumes "\<not> is_control_code ch" and "looks_like_url (ch # rest)"
  shows "scan_step nick st out_pos ch rest out styles =
         (st, out_pos + int (length (takeWhile url_char (ch # rest))),
          dropWhile url_char (ch # rest),
          out @ takeWhile url_char (ch # rest),
          styles @ replicate (length (takeWhile url_char (ch # rest)))
                     (style_tag (int (spec_style_slot True (in_ctcp st)
                        (foreground_of (fg st)) (bold st) (underline st)))))"
  using assms
  by (simp add: scan_step_def is_control_code_def Let_def style_for_state_def spec_style_slot_def
      del: takeWhile.simps dropWhile.simps)

lemmas transcoder_eval =
  append_text_strings_def c_str_def timestamp_prefix_def detect_nick_def is_blank_def no_nick_def
  action_marker_def initial_parse_state_def scan_step_def looks_like_url_def strncasecmp_eq_def
  style_for_state_def style_tag_eq_iff g_ascii_tolower_def g_ascii_isdigit_def byte_def
  skip_color_args_def url_char_def g_ascii_isspace_def hash_nick_color_def
  numeral_2_eq_2 Let_def

lemma bold_scenario:
  "append_text_strings False None (Some (CHR 0x02 # ''Hello'' @ CHR 0x02 # '' world''))
   = (''Hello world'' @ [CHR 0x0A], ''TTTTT'' @ ''AAAAAA'' @ ''A'')"
  by code_simp

lemma hash_nick_color_less_16: "hash_nick_color nick < 16"
proof -
  have "\<bar>k smod 16\<bar> < 16" for k :: int
    by (simp add: smod_int_alt_def abs_mult abs_sgn_eq)
  from this [of "sint (nick_sum 0 nick)"] show ?thesis
    by (simp add: hash_nick_color_def)
qed

lemma detect_nick_color: "nick_color (detect_nick msg) < 16"
  by (simp add: detect_nick_def no_nick_def Let_def hash_nick_color_less_16
      split: list.split)

text \<open>
  C3: every visible (non-control) character gets its style slot by the precedence of the
  specification: inside a URL run the hyperlink slot; else the CTCP slot when \<^verbatim>\<open>in_ctcp\<close>
  is set and no foreground, bold or underline is active; else base 0, or 3 + foreground
  (the foreground in force at the position), moved to the bold region when bold is on,
  else to the underline region when underline is on. \<^verbatim>\<open>style_for_state\<close> computes
  exactly \<open>spec_style_slot\<close>, and a turn of the scan at a visible character appends that
  character with that tag. For \<^verbatim>\<open>"\x02Hello\x02 world"\<close> the visible text is
  \<^verbatim>\<open>Hello world\<close> and the newline every call appends; the first five characters carry
  the bold-default slot and the rest the base slot.
\<close>

theorem style_precedence:
  assumes "fg st < 16" and "nick_color nick < 16" and "\<not> is_control_code ch"
  shows "style_for_state st hyperlink =
           style_tag (int (spec_style_slot hyperlink (in_ctcp st) (foreground_of (fg st))
                            (bold st) (underline st)))
       \<and> (looks_like_url (ch # rest) \<longrightarrow>
            scan_step nick st out_pos ch rest out styles =
              (st, out_pos + int (length (takeWhile url_char (ch # rest))),
               dropWhile url_char (ch # rest),
               out @ takeWhile url_char (ch # rest),
               styles @ replicate (length (takeWhile url_char (ch # rest)))
                          (style_tag (int (spec_style_slot True (in_ctcp st)
                             (foreground_of (fg st)) (bold st) (underline st))))))
       \<and> (\<not> looks_like_url (ch # rest) \<longrightarrow>
            scan_step nick st out_pos ch rest out styles =
              (st, out_pos + 1, rest, out @ [ch],
               styles @ [style_tag (int (spec_style_slot False (in_ctcp st)
                           (foreground_of (fg_at nick st out_pos)) (bold st) (underline st)))]))
       \<and> append_text_strings False None (Some (CHR 0x02 # ''Hello'' @ CHR 0x02 # '' world''))
           = (''Hello world'' @ [CHR 0x0A],
              replicate 5 (style_tag (int (spec_style_slot False False None True False)))
              @ replicate 7 (style_tag (int (spec_style_slot False False None False False))))"
proof -
  have "replicate 5 (style_tag (int (spec_style_slot False False None True False)))
        @ replicate 7 (style_tag (int (spec_style_slot False False None False False)))
        = ''TTTTT'' @ ''AAAAAA'' @ ''A''"
    by (simp add: spec_style_slot_def style_tag_values numeral_eq_Suc)
  with bold_scenario
  have "append_text_strings False None (Some (CHR 0x02 # ''Hello'' @ CHR 0x02 # '' world''))
           = (''Hello world'' @ [CHR 0x0A],
              replicate 5 (style_tag (int (spec_style_slot False False None True False)))
              @ replicate 7 (style_tag (int (spec_style_slot False False None False False))))"
    by (simp only:)
  with style_for_state_spec [OF assms(1)] scan_step_url [OF assms(3)]
    scan_step_visible [OF assms(3) _ assms(1,2)]
  show ?thesis by blast
qed

theorem style_precedence_witness:
  "fg (initial_parse_state\<lparr>bold := True\<rparr>) < 16 \<and> nick_color no_nick < 16
   \<and> \<not> is_control_code CHR ''H'' \<and> \<not> looks_like_url ''Hello''
   \<and> scan_step no_nick (initial_parse_state\<lparr>bold := True\<rparr>) 0 CHR ''H'' ''ello'' [] []
       = (initial_parse_state\<lparr>bold := True\<rparr>, 1, ''ello'', ''H'', ''T'')
   \<and> style_for_state (initial_parse_state\<lparr>bold := True\<rparr>) True = CHR ''z''"
  using style_precedence [of "initial_parse_state\<lparr>bold := True\<rparr>" no_nick "CHR ''H''" True
      "''ello''" 0 "[]" "[]"]
  by (simp add: initial_parse_state_def no_nick_def is_control_code_def looks_like_url_def
      strncasecmp_eq_def g_ascii_tolower_def byte_def spec_style_slot_def foreground_of_def
      fg_at_def style_tag_values)











subsection \<open>Nick colour hash\<close>

lemma nick_sum_eq: "nick_sum acc nick = acc + of_nat (sum_list (map byte nick))"
  by (induction nick arbitrary: acc) (simp_all add: algebra_simps)

lemma sint_of_nat_small:
  assumes "n < 2 ^ 31"
  shows "sint (of_nat n :: c_int) = int n"
  using assms by (simp add: signed_of_nat signed_take_bit_int_eq_self)

lemma smod_16_nonneg: "(0::int) \<le> k \<Longrightarrow> k smod 16 = k mod 16"
  by (cases "k = 0") (simp_all add: smod_int_alt_def)

lemma byte_sum_le: "sum_list (map byte nick) \<le> 255 * length (nick :: string)"
proof (induction nick)
  case Nil
  then show ?case by simp
next
  case (Cons c nick)
  have "byte c < 256" by (simp add: byte_def)
  then have "byte c \<le> 255" by linarith
  with Cons show ?case by simp
qed

text \<open>Every string of less than 8421505 bytes is summed without overflow.\<close>

lemma byte_sum_fits_int:
  assumes "length nick < 8421505"
  shows "sum_list (map byte nick) \<le> 2147483647"
  using byte_sum_le [of nick] assms by simp

text \<open>
  C6: \<^verbatim>\<open>hash_nick_color\<close> is a function of the string alone, and for every string on
  which the loop is defined in C++, that is, whose byte values sum to at most
  \<^verbatim>\<open>INT_MAX\<close>, it is the sum of the byte values modulo 16 and lies in \<open>[0,15]\<close>.
\<close>

theorem hash_nick_color_sum_mod_16:
  assumes "sum_list (map byte nick) \<le> 2147483647"
  shows "hash_nick_color nick = int (sum_list (map byte nick) mod 16)
       \<and> 0 \<le> hash_nick_color nick \<and> hash_nick_color nick \<le> 15"
proof -
  let ?s = "sum_list (map byte nick)"
  from assms have "?s < 2 ^ 31" by simp
  then have "sint (of_nat ?s :: c_int) = int ?s" by (rule sint_of_nat_small)
  then have eq: "hash_nick_color nick = int (?s mod 16)"
    by (simp add: hash_nick_color_def nick_sum_eq smod_16_nonneg zmod_int)
  have "?s mod 16 < 16" by simp
  then have "int (?s mod 16) \<le> 15" by linarith
  with eq show ?thesis by simp
qed

theorem hash_nick_color_sum_mod_16_witness:
  "sum_list (map byte ''alice'') = 510 \<and> hash_nick_color ''alice'' = 14
   \<and> hash_nick_color (replicate 100 (CHR 0xFF)) = 12"
proof -
  have a: "sum_list (map byte ''alice'') = 510" by (simp add: byte_def)
  have b: "sum_list (map byte (replicate 100 (CHR 0xFF))) = 25500"
    by (simp add: byte_def sum_list_replicate)
  from hash_nick_color_sum_mod_16 [of "''alice''"] hash_nick_color_sum_mod_16
      [of "replicate 100 (CHR 0xFF)"] a b
  show ?thesis by simp
qed

subsection \<open>Suggestions\<close>

lemma found_in_set: "found_in result sg \<longleftrightarrow> sg \<in> set result"
  by (induction result) auto

lemma unique_in_order_prefix: "\<exists>ys. unique_in_order seen xs = seen @ ys"
proof (induction xs arbitrary: seen)
  case Nil
  then show ?case by simp
next
  case (Cons x xs)
  show ?case
  proof (cases "x \<in> set seen")
    case True
    with Cons [of seen] show ?thesis by simp
  next
    case False
    from Cons [of "seen @ [x]"] obtain ys where "unique_in_order (seen @ [x]) xs = (seen @ [x]) @ ys"
      by blast
    with False show ?thesis by simp
  qed
qed

lemma take_unique_full:
  assumes "n \<le> length seen"
  shows "take n (unique_in_order seen xs) = take n seen"
proof -
  obtain ys where "unique_in_order seen xs = seen @ ys" using unique_in_order_prefix by blast
  with assms show ?thesis by simp
qed

lemma unique_in_order_append:
  "unique_in_order seen (xs @ ys) = unique_in_order (unique_in_order seen xs) ys"
  by (induction xs arbitrary: seen) simp_all

lemma unique_in_order_distinct: "distinct seen \<Longrightarrow> distinct (unique_in_order seen xs)"
  by (induction xs arbitrary: seen) simp_all

lemma add_suggestions_spec:
  assumes "length result \<le> 10"
  shows "add_suggestions result suggestions = take 10 (unique_in_order result suggestions)"
  using assms
proof (induction suggestions arbitrary: result)
  case Nil
  then show ?case by simp
next
  case (Cons sg suggestions)
  show ?case
  proof (cases "length result < 10")
    case True
    then have "length (if found_in result sg then result else result @ [sg]) \<le> 10" by simp
    from Cons.IH [OF this] True show ?thesis by (simp add: found_in_set)
  next
    case False
    with Cons.prems have "length result = 10" by simp
    then have "take 10 (unique_in_order result (sg # suggestions)) = take 10 result"
      by (intro take_unique_full) simp
    with False \<open>length result = 10\<close> show ?thesis by simp
  qed
qed

lemma take_unique_take:
  "take n (unique_in_order (take n seen) xs) = take n (unique_in_order seen xs)"
proof (cases "n \<le> length seen")
  case True
  then have "take n (unique_in_order (take n seen) xs) = take n (take n seen)"
    by (intro take_unique_full) simp
  moreover from True have "take n (unique_in_order seen xs) = take n seen"
    by (rule take_unique_full)
  ultimately show ?thesis by simp
next
  case False
  then show ?thesis by simp
qed

lemma suggest_dicts_spec:
  assumes "length result \<le> 10"
  shows "suggest_dicts dicts word result
         = take 10 (unique_in_order result (concat (map (dict_candidates word) dicts)))"
  using assms
proof (induction dicts arbitrary: result)
  case Nil
  then show ?case by simp
next
  case (Cons dict dicts)
  show ?case
  proof (cases "enchant_dict_suggest dict word")
    case None
    then have "dict_candidates word dict = []" by (simp add: dict_candidates_def)
    with None Cons show ?thesis by simp
  next
    case (Some suggestions)
    let ?r = "add_suggestions result suggestions"
    have r: "?r = take 10 (unique_in_order result suggestions)"
      using Cons.prems by (rule add_suggestions_spec)
    then have "length ?r \<le> 10" by simp
    from Cons.IH [OF this]
    have "suggest_dicts dicts word ?r
          = take 10 (unique_in_order ?r (concat (map (dict_candidates word) dicts)))" .
    also have "\<dots> = take 10 (unique_in_order (unique_in_order result suggestions)
                                (concat (map (dict_candidates word) dicts)))"
      unfolding r by (rule take_unique_take)
    finally have "suggest_dicts dicts word ?r
          = take 10 (unique_in_order (unique_in_order result suggestions)
                                (concat (map (dict_candidates word) dicts)))" .
    moreover from Some have "dict_candidates word dict = suggestions"
      by (simp add: dict_candidates_def)
    ultimately show ?thesis using Some by (simp add: unique_in_order_append)
  qed
qed

text \<open>
  C7: for every word and every state of the loaded dictionaries \<^verbatim>\<open>spell_get_suggestions\<close>
  returns at most 10 strings, no string twice; whenever the library is present and the
  word is not empty, the list is the one of the specification: each loaded dictionary
  queried in order, its candidates appended in the order returned unless already present,
  up to 10 unique candidates.
\<close>

theorem spell_get_suggestions_bounded_unique:
  "length (spell_get_suggestions s word len) \<le> 10
   \<and> distinct (spell_get_suggestions s word len)
   \<and> (have_enchant s \<and> len \<noteq> 0 \<longrightarrow>
        spell_get_suggestions s (Some p) len = spec_suggest (spell_dicts s) (take len p))"
proof -
  have eq: "suggest_dicts dicts w [] = spec_suggest dicts w" for dicts w
    by (simp add: suggest_dicts_spec spec_suggest_def)
  have "distinct (spec_suggest dicts w)" for dicts w
    by (simp add: spec_suggest_def unique_in_order_distinct distinct_take)
  moreover have "length (spec_suggest dicts w) \<le> 10" for dicts w
    by (simp add: spec_suggest_def)
  moreover have "spec_suggest [] w = []" for w by (simp add: spec_suggest_def)
  ultimately show ?thesis
    by (auto simp add: spell_get_suggestions_def eq split: option.split)
qed

theorem spell_get_suggestions_bounded_unique_witness:
  "have_enchant ((spell_start True)\<lparr>spell_dicts :=
       [word_list_dict ''en'' [] [(''helo'', [''hello'', ''help''])],
        word_list_dict ''de'' [] [(''helo'', [''held'', ''hello''])]]\<rparr>)
   \<and> spell_get_suggestions ((spell_start True)\<lparr>spell_dicts :=
       [word_list_dict ''en'' [] [(''helo'', [''hello'', ''help''])],
        word_list_dict ''de'' [] [(''helo'', [''held'', ''hello''])]]\<rparr>) (Some ''helo'') 4
     = [''hello'', ''help'', ''held'']"
proof -
  let ?s = "(spell_start True)\<lparr>spell_dicts :=
       [word_list_dict ''en'' [] [(''helo'', [''hello'', ''help''])],
        word_list_dict ''de'' [] [(''helo'', [''held'', ''hello''])]]\<rparr>"
  have "spec_suggest (spell_dicts ?s) (take 4 ''helo'') = [''hello'', ''help'', ''held'']"
    by (simp add: spec_suggest_def dict_candidates_def enchant_dict_suggest_def
        word_list_dict_def spell_start_def)
  with spell_get_suggestions_bounded_unique [of ?s "Some ''helo''" 4 "''helo''"]
  show ?thesis by (simp add: spell_start_def)
qed

subsection \<open>The word tokenizer\<close>

lemma g_utf8_next_char_fst: "snd ptr \<noteq> [] \<Longrightarrow> fst ptr < fst (g_utf8_next_char ptr)"
  using g_utf8_skip_pos by (cases "snd ptr") (simp_all add: g_utf8_next_char_def)




lemma skip_word_fst: "fst ptr \<le> fst (skip_word isalpha getc ptr)"
proof (induction isalpha getc ptr rule: skip_word.induct)
  case (1 isalpha getc ptr)
  show ?case
  proof (cases "snd ptr \<noteq> [] \<and> word_char isalpha (getc (snd ptr))")
    case True
    with 1 g_utf8_next_char_fst [of ptr] show ?thesis
      by (subst skip_word.simps) simp
  next
    case False
    then show ?thesis by (subst skip_word.simps) auto
  qed
qed


lemma skip_word_fst_less:
  assumes "snd ptr \<noteq> []" and "isalpha (getc (snd ptr))"
  shows "fst ptr < fst (skip_word isalpha getc ptr)"
proof -
  from assms have "skip_word isalpha getc ptr = skip_word isalpha getc (g_utf8_next_char ptr)"
    by (subst skip_word.simps) (simp add: word_char_def)
  moreover have "fst (g_utf8_next_char ptr) \<le> fst (skip_word isalpha getc (g_utf8_next_char ptr))"
    by (rule skip_word_fst)
  moreover have "fst ptr < fst (g_utf8_next_char ptr)"
    using assms(1) by (rule g_utf8_next_char_fst)
  ultimately show ?thesis by simp
qed


text \<open>The two cases of a turn of the tokenizer's loop.\<close>

lemma find_words_from_end:
  assumes "snd ptr = [] \<or> snd (skip_non_word isalpha getc ptr) = []"
  shows "find_words_from isalpha getc s ptr = []"
  using assms by (subst find_words_from.simps) (auto simp add: Let_def)

lemma find_words_from_word:
  assumes "snd ptr \<noteq> []" and "snd (skip_non_word isalpha getc ptr) \<noteq> []"
  shows "find_words_from isalpha getc s ptr =
         \<lparr>span_start = int (fst (skip_non_word isalpha getc ptr)),
          span_end = int (fst (skip_word isalpha getc (skip_non_word isalpha getc ptr))),
          misspelled = \<not> spell_check_word isalpha getc s
             (Some (snd (skip_non_word isalpha getc ptr)))
             (fst (skip_word isalpha getc (skip_non_word isalpha getc ptr))
               - fst (skip_non_word isalpha getc ptr))\<rparr>
         # find_words_from isalpha getc s (skip_word isalpha getc (skip_non_word isalpha getc ptr))"
proof -
  let ?ws = "skip_non_word isalpha getc ptr"
  from assms(2) have "isalpha (getc (snd ?ws))"
    using skip_non_word_stops [of isalpha getc ptr] by simp
  with assms(2) have "fst ?ws < fst (skip_word isalpha getc ?ws)" by (rule skip_word_fst_less)
  with assms show ?thesis
    by (subst find_words_from.simps) (simp add: Let_def)
qed

lemma find_words_from_cases [case_names finished word]:
  assumes fin: "\<And>ptr. snd ptr = [] \<or> snd (skip_non_word isalpha getc ptr) = [] \<Longrightarrow> P ptr"
    and step: "\<And>ptr. snd ptr \<noteq> [] \<Longrightarrow> snd (skip_non_word isalpha getc ptr) \<noteq> [] \<Longrightarrow>
           P (skip_word isalpha getc (skip_non_word isalpha getc ptr)) \<Longrightarrow> P ptr"
  shows "P ptr"
proof -
  have "\<forall>ptr. length (snd ptr) = n \<longrightarrow> P ptr" for n
  proof (induction n rule: less_induct)
    case (less n)
    show ?case
    proof (intro allI impI)
      fix ptr :: pointer
      assume n: "length (snd ptr) = n"
      show "P ptr"
      proof (cases "snd ptr = [] \<or> snd (skip_non_word isalpha getc ptr) = []")
        case True
        then show ?thesis by (rule fin)
      next
        case False
        define ws where "ws = skip_non_word isalpha getc ptr"
        define we where "we = skip_word isalpha getc ws"
        from False have ne: "snd ptr \<noteq> []" "snd ws \<noteq> []" by (simp_all add: ws_def)
        have "snd ws = [] \<or> isalpha (getc (snd ws))"
          unfolding ws_def by (rule skip_non_word_stops)
        with ne have "isalpha (getc (snd ws))" by simp
        with ne(2) have "length (snd we) < length (snd ws)"
          unfolding we_def by (rule skip_word_shorter)
        moreover have "length (snd ws) \<le> length (snd ptr)"
          unfolding ws_def by (rule skip_non_word_length)
        ultimately have "length (snd we) < n" using n by simp
        with less.IH have "P we" by blast
        then have "P (skip_word isalpha getc (skip_non_word isalpha getc ptr))"
          by (simp only: we_def ws_def)
        with ne(1) ne(2) [unfolded ws_def] show ?thesis by (rule step)
      qed
    qed
  qed
  then show ?thesis by blast
qed

lemma find_words_from_fail_open:
  assumes "\<not> have_enchant s \<or> spell_dicts s = []"
  shows "list_all (\<lambda>w. \<not> misspelled w) (find_words_from isalpha getc s ptr)"
proof (induction ptr rule: find_words_from_cases [where isalpha = isalpha and getc = getc])
  case (finished ptr)
  then show ?case by (simp add: find_words_from_end)
next
  case (word ptr)
  with assms show ?case by (simp add: find_words_from_word spell_check_word_def)
qed






text \<open>
  C4: when the dictionary provider is unavailable or no dictionary is loaded,
  \<^verbatim>\<open>spell_check_word\<close> returns "correct" for every word, the empty and the
  non-alphabetic included, and for a null pointer; it is total, so there is no error to
  signal. Every span of \<^verbatim>\<open>spell_find_words\<close> is then reported as not misspelled.
\<close>

theorem spell_check_word_fail_open:
  assumes "\<not> have_enchant s \<or> spell_dicts s = []"
  shows "spell_check_word isalpha getc s word len
       \<and> list_all (\<lambda>w. \<not> misspelled w) (spell_find_words isalpha getc s text)"
proof -
  have "list_all (\<lambda>w. \<not> misspelled w) (spell_find_words isalpha getc s text)"
    using find_words_from_fail_open [OF assms]
    by (simp add: spell_find_words_def split: option.split)
  with assms show ?thesis by (auto simp add: spell_check_word_def)
qed

theorem spell_check_word_fail_open_witness:
  "have_enchant (spell_start False) = False
   \<and> spell_check_word ascii_isalpha ascii_get_char (spell_start False) (Some ''123!'') 4
   \<and> spell_check_word ascii_isalpha ascii_get_char (spell_start False) (Some []) 0
   \<and> spell_check_word ascii_isalpha ascii_get_char (spell_start False) (Some ''xyzzy'') 5
   \<and> spell_dicts (spell_start True) = []
   \<and> spell_check_word ascii_isalpha ascii_get_char (spell_start True) (Some ''xyzzy'') 5"
  using spell_check_word_fail_open [of "spell_start False" ascii_isalpha ascii_get_char
      "Some ''123!''" 4 None]
    spell_check_word_fail_open [of "spell_start False" ascii_isalpha ascii_get_char "Some []" 0 None]
    spell_check_word_fail_open [of "spell_start False" ascii_isalpha ascii_get_char
      "Some ''xyzzy''" 5 None]
    spell_check_word_fail_open [of "spell_start True" ascii_isalpha ascii_get_char
      "Some ''xyzzy''" 5 None]
  by (simp add: spell_start_def)

subsection \<open>Set-up and teardown of the spell checker\<close>

lemma request_langs_broker: "spell_broker (request_langs broker lang_array s) = spell_broker s"
  by (induction broker lang_array s rule: request_langs.induct)
     (simp_all add: Let_def split: option.split)

lemma request_langs_ignores:
  "spell_session_ignores (request_langs broker lang_array s) = spell_session_ignores s"
  by (induction broker lang_array s rule: request_langs.induct)
     (simp_all add: Let_def split: option.split)

lemma spell_init_broker_ignores:
  "spell_session_ignores (spell_init_broker broker_init langs s) = spell_session_ignores s"
  by (simp add: spell_init_broker_def Let_def request_langs_ignores split: option.split)

lemma spell_wf_start: "spell_wf (spell_start found)"
  by (simp add: spell_wf_def spell_start_def)

lemma spell_wf_init: "spell_wf s \<Longrightarrow> spell_wf (spell_init_broker broker_init langs s)"
  by (simp add: spell_wf_def spell_init_broker_def Let_def request_langs_broker
      split: option.split)

lemma spell_wf_cleanup: "spell_wf s \<Longrightarrow> spell_wf (spell_cleanup s)"
  by (simp add: spell_wf_def spell_cleanup_def Let_def)

lemma spell_wf_ignore: "spell_wf s \<Longrightarrow> spell_wf (spell_ignore_word s word)"
  by (simp add: spell_wf_def spell_ignore_word_def Let_def split: option.split)

lemma spell_cleanup_ignore:
  assumes "spell_wf s"
  shows "spell_cleanup (spell_ignore_word s word) = spell_cleanup s"
  using assms
  by (cases "spell_broker s")
     (simp_all add: spell_wf_def spell_cleanup_def spell_ignore_word_def Let_def
        split: option.split)

text \<open>
  C10: \<^verbatim>\<open>spell_cleanup\<close> empties the session ignore set, besides releasing the
  dictionary handles and the broker. A teardown followed by \<^verbatim>\<open>spell_init_broker\<close>
  therefore ends in the same state whether or not \<^verbatim>\<open>spell_ignore_word\<close> was called
  before: the ignore set is empty, and every word is checked as if it had never been
  ignored.
\<close>

theorem spell_cleanup_forgets_ignored_words:
  assumes "spell_wf s"
  shows "spell_session_ignores (spell_cleanup s) = {}
       \<and> spell_dicts (spell_cleanup s) = []
       \<and> spell_broker (spell_cleanup s) = None
       \<and> spell_init_broker broker_init langs (spell_cleanup (spell_ignore_word s word))
           = spell_init_broker broker_init langs (spell_cleanup s)
       \<and> spell_session_ignores
            (spell_init_broker broker_init langs (spell_cleanup (spell_ignore_word s word))) = {}
       \<and> spell_check_word isalpha getc
            (spell_init_broker broker_init langs (spell_cleanup (spell_ignore_word s word))) w len
           = spell_check_word isalpha getc
               (spell_init_broker broker_init langs (spell_cleanup s)) w len"
proof -
  have "spell_session_ignores (spell_cleanup s) = {}"
    by (simp add: spell_cleanup_def Let_def)
  moreover have "spell_dicts (spell_cleanup s) = []" "spell_broker (spell_cleanup s) = None"
    using assms by (simp_all add: spell_cleanup_def spell_wf_def Let_def)
  moreover note spell_cleanup_ignore [OF assms, of word]
  ultimately show ?thesis by (simp add: spell_init_broker_ignores)
qed

lemmas spell_eval =
  spell_init_broker_def spell_cleanup_def spell_ignore_word_def spell_check_word_def
  spell_start_def english_only_broker_def word_list_dict_def enchant_broker_request_dict_def
  enchant_dict_check_def enchant_dict_add_to_session_def seed_irc_terms_def g_strsplit_set_def
  c_str_def strncasecmp_eq_def g_ascii_tolower_def ascii_isalpha_def ascii_get_char_def byte_def
  Let_def

theorem spell_cleanup_forgets_ignored_words_witness:
  "spell_wf (spell_init_broker (Some english_only_broker) ''en'' (spell_start True))
   \<and> spell_session_ignores
        (spell_init_broker (Some english_only_broker) ''en''
          (spell_cleanup
            (spell_ignore_word
              (spell_init_broker (Some english_only_broker) ''en'' (spell_start True))
              (Some ''xyzzy'')))) = {}
   \<and> spell_check_word ascii_isalpha ascii_get_char
        (spell_ignore_word
          (spell_init_broker (Some english_only_broker) ''en'' (spell_start True))
          (Some ''xyzzy''))
        (Some ''xyzzy'') 5
   \<and> \<not> spell_check_word ascii_isalpha ascii_get_char
        (spell_init_broker (Some english_only_broker) ''en''
          (spell_cleanup
            (spell_ignore_word
              (spell_init_broker (Some english_only_broker) ''en'' (spell_start True))
              (Some ''xyzzy''))))
        (Some ''xyzzy'') 5"
proof -
  let ?s = "spell_init_broker (Some english_only_broker) ''en'' (spell_start True)"
  have wf: "spell_wf ?s" by (intro spell_wf_init spell_wf_start)
  have "spell_check_word ascii_isalpha ascii_get_char (spell_ignore_word ?s (Some ''xyzzy''))
          (Some ''xyzzy'') 5"
    by (simp add: spell_eval)
  moreover have "\<not> spell_check_word ascii_isalpha ascii_get_char
      (spell_init_broker (Some english_only_broker) ''en'' (spell_cleanup ?s)) (Some ''xyzzy'') 5"
    by (simp add: spell_eval)
  moreover note spell_cleanup_forgets_ignored_words [OF wf, of "Some english_only_broker" "''en''"
        "Some ''xyzzy''" ascii_isalpha ascii_get_char "Some ''xyzzy''" 5]
  ultimately show ?thesis using wf by metis
qed

lemma request_langs_requests:
  "broker_requests (request_langs broker lang_array s)
   = broker_requests s @ filter (\<lambda>lang. lang \<noteq> []) lang_array"
  by (induction broker lang_array s rule: request_langs.induct)
     (simp_all add: Let_def split: option.split)

lemma request_langs_none_resolves:
  assumes "list_all (\<lambda>lang. enchant_broker_request_dict broker lang = None) lang_array"
  shows "spell_dicts (request_langs broker lang_array s) = spell_dicts s"
  using assms
  by (induction broker lang_array s rule: request_langs.induct) (simp_all add: Let_def)

lemma request_langs_seeded:
  "set (spell_dicts (request_langs broker lang_array s))
   \<subseteq> set (spell_dicts s) \<union> range seed_irc_terms"
proof (induction lang_array arbitrary: s)
  case Nil
  then show ?case by simp
next
  case (Cons lang lang_array)
  show ?case
  proof (cases "lang = []")
    case True
    with Cons [of s] show ?thesis by simp
  next
    case False
    let ?s1 = "s\<lparr>broker_requests := broker_requests s @ [lang]\<rparr>"
    show ?thesis
    proof (cases "enchant_broker_request_dict broker lang")
      case None
      with False Cons [of ?s1] show ?thesis by (simp add: Let_def)
    next
      case (Some dict)
      let ?s2 = "?s1\<lparr>spell_dicts := spell_dicts ?s1 @ [seed_irc_terms dict]\<rparr>"
      from Cons [of ?s2]
      have "set (spell_dicts (request_langs broker lang_array ?s2))
            \<subseteq> set (spell_dicts s) \<union> range seed_irc_terms"
        by auto
      with False Some show ?thesis by (simp add: Let_def)
    qed
  qed
qed

text \<open>
  The first half of C5 holds: when no language of the list resolves, the tags requested
  are those of the list and then \<^verbatim>\<open>"en"\<close>, once. So does the second half for the
  dictionaries of the list (\<open>request_langs_seeded\<close>).
\<close>

lemma spell_init_broker_fallback_once:
  assumes "have_enchant s" and "spell_broker s = None" and "spell_dicts s = []"
    and "list_all (\<lambda>lang. enchant_broker_request_dict broker lang = None)
           (g_strsplit_set (c_str langs) [CHR '','', CHR '' '', CHR 0x09])"
  shows "broker_requests (spell_init_broker (Some broker) langs s)
         = broker_requests s
           @ filter (\<lambda>lang. lang \<noteq> []) (g_strsplit_set (c_str langs) [CHR '','', CHR '' '', CHR 0x09])
           @ [''en'']"
proof -
  let ?arr = "g_strsplit_set (c_str langs) [CHR '','', CHR '' '', CHR 0x09]"
  let ?s1 = "s\<lparr>spell_broker := Some broker\<rparr>"
  from assms(3,4) have "spell_dicts (request_langs broker ?arr ?s1) = []"
    by (simp add: request_langs_none_resolves)
  with assms(1,2) show ?thesis
    by (simp add: spell_init_broker_def Let_def request_langs_requests split: option.split)
qed

text \<open>
  C5 fails on the code where the fallback is taken: with the language list \<^verbatim>\<open>"xx"\<close>
  and a broker that has English only, \<^verbatim>\<open>"xx"\<close> and then \<^verbatim>\<open>"en"\<close> are requested, and
  the English dictionary is loaded as the broker gave it, without the three terms in its
  session: \<^verbatim>\<open>IRC\<close> is flagged. With the list \<^verbatim>\<open>"en"\<close> the same dictionary is seeded
  and \<^verbatim>\<open>IRC\<close> passes.
\<close>

theorem fallback_dictionary_not_seeded:
  "spell_dicts (spell_init_broker (Some english_only_broker) ''xx'' (spell_start True))
     = [word_list_dict ''en'' [''hello''] []]
   \<and> broker_requests (spell_init_broker (Some english_only_broker) ''xx'' (spell_start True))
     = [''xx'', ''en'']
   \<and> \<not> spell_check_word ascii_isalpha ascii_get_char
         (spell_init_broker (Some english_only_broker) ''xx'' (spell_start True)) (Some ''IRC'') 3
   \<and> spell_dicts (spell_init_broker (Some english_only_broker) ''en'' (spell_start True))
     = [seed_irc_terms (word_list_dict ''en'' [''hello''] [])]
   \<and> spell_check_word ascii_isalpha ascii_get_char
         (spell_init_broker (Some english_only_broker) ''en'' (spell_start True)) (Some ''IRC'') 3"
  by (simp add: spell_eval)

theorem fallback_dictionary_not_seeded_witness:
  "dict_session (hd (spell_dicts
      (spell_init_broker (Some english_only_broker) ''xx'' (spell_start True)))) = []
   \<and> dict_session (hd (spell_dicts
      (spell_init_broker (Some english_only_broker) ''en'' (spell_start True))))
     = [''HexChat'', ''FlexChat'', ''IRC'']"
  using fallback_dictionary_not_seeded
  by (simp add: word_list_dict_def seed_irc_terms_def enchant_dict_add_to_session_def)

subsection \<open>The palette file\<close>

lemma byte_digit_char: "d < 10 \<Longrightarrow> byte (digit_char d) = 48 + d"
  by (simp add: byte_def digit_char_def)

lemma isdigit_digit_char: "d < 10 \<Longrightarrow> g_ascii_isdigit (digit_char d)"
  by (simp add: g_ascii_isdigit_def byte_digit_char)

lemma decimal_digits: "list_all g_ascii_isdigit (decimal n)"
proof (induction n rule: decimal.induct)
  case (1 n)
  show ?case
  proof (cases "n < 10")
    case True
    then show ?thesis by (subst decimal.simps) (simp add: isdigit_digit_char)
  next
    case False
    with 1 show ?thesis by (subst decimal.simps) (simp add: isdigit_digit_char)
  qed
qed

lemma decimal_nonempty: "decimal n \<noteq> []"
  by (subst decimal.simps) simp

lemma decimal_value_snoc: "decimal_value (ds @ [c]) = 10 * decimal_value ds + (byte c - 48)"
  by (simp add: decimal_value_def)

lemma decimal_value_decimal: "decimal_value (decimal n) = n"
proof (induction n rule: decimal.induct)
  case (1 n)
  show ?case
  proof (cases "n < 10")
    case True
    then show ?thesis
      by (subst decimal.simps) (simp add: decimal_value_def byte_digit_char)
  next
    case False
    with 1 show ?thesis
      by (subst decimal.simps) (simp add: decimal_value_snoc byte_digit_char)
  qed
qed

lemma decimal_length:
  "n < 10 \<Longrightarrow> length (decimal n) = 1"
  "n < 100 \<Longrightarrow> length (decimal n) \<le> 2"
  "n < 1000 \<Longrightarrow> length (decimal n) \<le> 3"
proof -
  show a: "length (decimal n) = 1" if "n < 10" for n
    using that by (subst decimal.simps) simp
  show b: "length (decimal n) \<le> 2" if "n < 100" for n
  proof (cases "n < 10")
    case True
    then show ?thesis by (simp add: a)
  next
    case False
    from that have "n div 10 < 10" by simp
    with False a [of "n div 10"] show ?thesis by (subst decimal.simps) simp
  qed
  show "length (decimal n) \<le> 3" if "n < 1000"
  proof (cases "n < 10")
    case True
    then show ?thesis by (simp add: a)
  next
    case False
    from that have "n div 10 < 100" by simp
    with False b [of "n div 10"] show ?thesis by (subst decimal.simps) simp
  qed
qed

lemma isdigit_facts:
  assumes "g_ascii_isdigit c"
  shows "\<not> c_isspace c" "c \<noteq> CHR ''-''" "c \<noteq> CHR ''+''" "c \<noteq> CHR 0x0A" "c \<noteq> CHR 0x00"
  using assms by (auto simp add: g_ascii_isdigit_def c_isspace_def byte_def)

lemma scan_d_decimal:
  assumes "\<not> g_ascii_isdigit c"
  shows "scan_d (decimal n @ c # rest) = Some (int n, c # rest)"
proof -
  obtain d ds where dec: "decimal n = d # ds"
    using decimal_nonempty [of n] by (cases "decimal n") simp_all
  have all: "list_all g_ascii_isdigit (decimal n)" by (rule decimal_digits)
  with dec have d: "g_ascii_isdigit d" by simp
  have tw: "takeWhile g_ascii_isdigit (decimal n @ c # rest) = decimal n"
    using all assms by (simp add: takeWhile_append2 list_all_iff)
  have dw: "dropWhile g_ascii_isdigit (decimal n @ c # rest) = c # rest"
    using all assms by (simp add: dropWhile_append2 list_all_iff)
  have sp: "dropWhile c_isspace (decimal n @ c # rest) = decimal n @ c # rest"
    using dec isdigit_facts(1) [OF d] by simp
  have sign: "take 1 (decimal n @ c # rest) \<noteq> ''-''" "take 1 (decimal n @ c # rest) \<noteq> ''+''"
    using dec isdigit_facts(2,3) [OF d] by simp_all
  show ?thesis
    unfolding scan_d_def sp Let_def using sign tw dw decimal_nonempty [of n]
    by (simp add: decimal_value_decimal)
qed

lemma dropWhile_isspace_decimal:
  "dropWhile c_isspace (decimal n @ rest) = decimal n @ rest"
proof -
  obtain d ds where dec: "decimal n = d # ds"
    using decimal_nonempty [of n] by (cases "decimal n") simp_all
  with decimal_digits [of n] have "g_ascii_isdigit d" by simp
  with dec isdigit_facts(1) [of d] show ?thesis by simp
qed

lemma printf_d_nat: "printf_d (int n) = decimal n"
  by (simp add: printf_d_def)

lemma printf_d_byte: "printf_d (uint (w :: 8 word)) = decimal (unat w)"
  by (simp add: printf_d_def)

lemma sscanf_color_line:
  "sscanf_color (color_line (int n) c) = Some (int n, uint (col_r c), uint (col_g c), uint (col_b c))"
proof -
  have sp: "\<not> g_ascii_isdigit CHR '' ''" and nl: "\<not> g_ascii_isdigit CHR 0x0A"
    by (simp_all add: g_ascii_isdigit_def byte_def)
  have ws: "c_isspace CHR '' ''" "\<not> c_isspace CHR ''=''"
    by (simp_all add: c_isspace_def byte_def)
  note dec = scan_d_decimal [OF sp] scan_d_decimal [OF nl]
  show ?thesis
    unfolding color_line_def sscanf_color_def printf_d_byte printf_d_nat
    by (simp add: scan_literal_def dec ws dropWhile_isspace_decimal)
qed


lemma fgets_line_newline:
  assumes "CHR 0x0A \<notin> set l" and "length l < m"
  shows "fgets_line m (l @ CHR 0x0A # rest) = l @ [CHR 0x0A]"
  using assms
proof (induction l arbitrary: m)
  case Nil
  then show ?case by (cases m) simp_all
next
  case (Cons c l)
  then obtain m' where "m = Suc m'" by (cases m) simp_all
  with Cons show ?case by auto
qed

lemma decimal_no_newline: "CHR 0x0A \<notin> set (decimal n)" and decimal_no_nul: "CHR 0x00 \<notin> set (decimal n)"
  using decimal_digits [of n] isdigit_facts(4,5) by (auto simp add: list_all_iff)

lemma unat_byte_less: "unat (w :: 8 word) < 1000"
proof -
  have "unat w < 2 ^ LENGTH(8)" by (rule unsigned_less)
  then show ?thesis by simp
qed

lemma color_line_shape:
  assumes "n < 1000"
  shows "\<exists>l. color_line (int n) c = l @ [CHR 0x0A] \<and> CHR 0x0A \<notin> set l \<and> length l < 255
             \<and> CHR 0x00 \<notin> set l"
proof -
  define dn where "dn = decimal n"
  define dr where "dr = decimal (unat (col_r c))"
  define dg where "dg = decimal (unat (col_g c))"
  define db where "db = decimal (unat (col_b c))"
  let ?l = "''color_'' @ dn @ '' = '' @ dr @ '' '' @ dg @ '' '' @ db"
  have len: "length dn \<le> 3" "length dr \<le> 3" "length dg \<le> 3" "length db \<le> 3"
    unfolding dn_def dr_def dg_def db_def
    by (rule decimal_length(3), rule assms) (rule decimal_length(3), rule unat_byte_less)+
  have nonl: "CHR 0x0A \<notin> set dn" "CHR 0x0A \<notin> set dr" "CHR 0x0A \<notin> set dg" "CHR 0x0A \<notin> set db"
    unfolding dn_def dr_def dg_def db_def by (rule decimal_no_newline)+
  have nonul: "CHR 0x00 \<notin> set dn" "CHR 0x00 \<notin> set dr" "CHR 0x00 \<notin> set dg" "CHR 0x00 \<notin> set db"
    unfolding dn_def dr_def dg_def db_def by (rule decimal_no_nul)+
  from len have "length ?l < 255" by simp
  moreover from nonl have "CHR 0x0A \<notin> set ?l" by simp
  moreover from nonul have "CHR 0x00 \<notin> set ?l" by simp
  moreover have "color_line (int n) c = ?l @ [CHR 0x0A]"
    unfolding color_line_def printf_d_nat printf_d_byte dn_def dr_def dg_def db_def by simp
  ultimately show ?thesis by blast
qed

lemma palette_load_lines_color_line:
  assumes "n < 1000"
  shows "palette_load_lines (color_line (int n) c @ rest) colors
         = palette_load_lines rest (palette_load_line (color_line (int n) c) colors)"
proof -
  from color_line_shape [OF assms, of c] obtain l
    where l: "color_line (int n) c = l @ [CHR 0x0A]" "CHR 0x0A \<notin> set l" "length l < 255"
    by blast
  then have "fgets_line 255 (color_line (int n) c @ rest) = color_line (int n) c"
    using fgets_line_newline [of l 255 rest] by simp
  with l(1) show ?thesis
    by (subst palette_load_lines.simps) simp
qed

lemma file_index_nat: "file_index i = int (if i < 32 then i else 224 + i)"
  by (simp add: file_index_def)

lemma palette_load_line_color_line:
  assumes "i \<le> MAX_COL"
  shows "palette_load_line (color_line (file_index i) c) colors = colors[i := c]"
proof -
  let ?n = "if i < 32 then i else 224 + i"
  have idx: "file_index i = int ?n" by (rule file_index_nat)
  from assms have "?n < 1000" by (simp add: MAX_COL_def)
  from color_line_shape [OF this, of c] obtain l
    where "color_line (int ?n) c = l @ [CHR 0x0A]" "CHR 0x00 \<notin> set l"
    by blast
  then have "c_str (color_line (int ?n) c) = color_line (int ?n) c"
    by (auto simp add: c_str_def takeWhile_eq_all_conv)
  then have "palette_load_line (color_line (int ?n) c) colors
             = colors[i := \<lparr>col_r = col_r c, col_g = col_g c, col_b = col_b c\<rparr>]"
    using assms unfolding palette_load_line_def
    by (simp add: sscanf_color_line Let_def MAX_COL_def)
  moreover have "\<lparr>col_r = col_r c, col_g = col_g c, col_b = col_b c\<rparr> = c"
    by simp
  ultimately show ?thesis unfolding idx by (simp only:)
qed

lemma palette_load_lines_fold:
  assumes "list_all (\<lambda>i. i \<le> MAX_COL) is"
  shows "palette_load_lines (concat (map (\<lambda>i. color_line (file_index i) (pal ! i)) is) @ rest) colors
         = palette_load_lines rest (fold (\<lambda>i p. p[i := pal ! i]) is colors)"
  using assms
proof (induction "is" arbitrary: colors)
  case Nil
  then show ?case by simp
next
  case (Cons i "is")
  let ?n = "if i < 32 then i else 224 + i"
  from Cons.prems have i: "i \<le> MAX_COL" by simp
  then have "?n < 1000" by (simp add: MAX_COL_def)
  from palette_load_lines_color_line [OF this]
  have "palette_load_lines (color_line (file_index i) (pal ! i) @ rest') colors
        = palette_load_lines rest' (palette_load_line (color_line (file_index i) (pal ! i)) colors)"
    for rest'
    by (simp add: file_index_nat)
  with Cons.IH [of "colors[i := pal ! i]"] Cons.prems palette_load_line_color_line [OF i]
  show ?case by simp
qed

lemma fold_update_upt_nth:
  "length (fold (\<lambda>i p. p[i := pal ! i]) [0..<k] colors) = length colors
   \<and> (\<forall>j < length colors. fold (\<lambda>i p. p[i := pal ! i]) [0..<k] colors ! j
          = (if j < k then pal ! j else colors ! j))"
proof (induction k)
  case 0
  then show ?case by simp
next
  case (Suc k)
  let ?f = "fold (\<lambda>i p. p[i := pal ! i]) [0..<k] colors"
  have eq: "fold (\<lambda>i p. p[i := pal ! i]) [0..<Suc k] colors = ?f[k := pal ! k]" by simp
  from Suc have len: "length ?f = length colors" by simp
  show ?case
  proof (intro conjI allI impI)
    show "length (fold (\<lambda>i p. p[i := pal ! i]) [0..<Suc k] colors) = length colors"
      unfolding eq using len by simp
  next
    fix j
    assume j: "j < length colors"
    show "fold (\<lambda>i p. p[i := pal ! i]) [0..<Suc k] colors ! j
          = (if j < Suc k then pal ! j else colors ! j)"
    proof (cases "j = k")
      case True
      with j len show ?thesis unfolding eq by simp
    next
      case False
      with j Suc show ?thesis unfolding eq by (simp add: less_Suc_eq)
    qed
  qed
qed

lemma fold_update_upt:
  assumes "length colors = n" and "length pal = n"
  shows "fold (\<lambda>i p. p[i := pal ! i]) [0..<n] colors = pal"
proof (rule nth_equalityI)
  show "length (fold (\<lambda>i p. p[i := pal ! i]) [0..<n] colors) = length pal"
    using fold_update_upt_nth [of pal n colors] assms by simp
next
  fix j
  assume "j < length (fold (\<lambda>i p. p[i := pal ! i]) [0..<n] colors)"
  with fold_update_upt_nth [of pal n colors] assms
  show "fold (\<lambda>i p. p[i := pal ! i]) [0..<n] colors ! j = pal ! j" by simp
qed

lemma palette_save_text_lines:
  "palette_save_text pal
   = concat (map (\<lambda>i. color_line (file_index i) (pal ! i)) [0..<MAX_COL + 1])"
proof -
  have e: "MAX_COL + 1 = 32 + 10" by (simp add: MAX_COL_def)
  have split: "[0..<MAX_COL + 1] = [0..<32] @ [32..<MAX_COL + 1]"
    unfolding e by (rule upt_add_eq_append) simp
  have low: "map (\<lambda>i. color_line (file_index i) (pal ! i)) [0..<32]
        = map (\<lambda>i. color_line (int i) (pal ! i)) [0..<32]"
    by (rule map_cong) (simp_all add: file_index_def)
  have high: "map (\<lambda>i. color_line (file_index i) (pal ! i)) [32..<MAX_COL + 1]
        = map (\<lambda>i. color_line (256 + (int i - 32)) (pal ! i)) [32..<MAX_COL + 1]"
    by (rule map_cong) (auto simp add: file_index_def MAX_COL_def)
  have "concat (map (\<lambda>i. color_line (file_index i) (pal ! i)) [0..<MAX_COL + 1])
        = concat (map (\<lambda>i. color_line (file_index i) (pal ! i)) [0..<32])
          @ concat (map (\<lambda>i. color_line (file_index i) (pal ! i)) [32..<MAX_COL + 1])"
    by (subst split) (simp only: map_append concat_append)
  then show ?thesis by (simp only: low high palette_save_text_def)
qed

lemma palette_load_lines_nil: "palette_load_lines [] colors = colors"
  by (subst palette_load_lines.simps) simp

lemma palette_load_lines_save_text:
  assumes "length pal = MAX_COL + 1" and "length colors = MAX_COL + 1"
  shows "palette_load_lines (palette_save_text pal) colors = pal"
proof -
  have "list_all (\<lambda>i. i \<le> MAX_COL) [0..<MAX_COL + 1]" by (simp add: list_all_iff)
  from palette_load_lines_fold [OF this, of pal "[]" colors]
  have "palette_load_lines (palette_save_text pal) colors
        = fold (\<lambda>i p. p[i := pal ! i]) [0..<MAX_COL + 1] colors"
    by (simp only: palette_save_text_lines palette_load_lines_nil append_Nil2)
  also have "\<dots> = pal" using assms(2,1) by (rule fold_update_upt)
  finally show ?thesis .
qed


text \<open>
  C8: saving the palette and loading the file written into any store of \<open>MAX_COL + 1\<close>
  entries, a fresh one included, gives back the saved \<open>(r, g, b)\<close> at every index of
  \<open>[0, MAX_COL]\<close>. The entry \<open>i\<close> is written under the index \<open>i\<close> below 32 and under
  \<open>256 + (i - 32)\<close> from 32 on, and a line so written is stored back at \<open>i\<close>. A line on
  which \<^verbatim>\<open>sscanf\<close> does not convert four numbers changes nothing, and the load goes on
  with the next line.
\<close>

theorem palette_save_load_round_trip:
  assumes "length (palette_colors st) = MAX_COL + 1"
    and "length (palette_colors store) = MAX_COL + 1"
  shows "palette_colors (palette_load (palette_save True st file) store) = palette_colors st
       \<and> palette_save True st file
           = Some (concat (map (\<lambda>i. color_line (if i < 32 then int i else 256 + (int i - 32))
                                       (palette_colors st ! i)) [0..<MAX_COL + 1]))
       \<and> (i \<le> MAX_COL \<longrightarrow>
            palette_load_line (color_line (if i < 32 then int i else 256 + (int i - 32)) c) colors
              = colors[i := c])
       \<and> (content \<noteq> [] \<and> sscanf_color (c_str (fgets_line 255 content)) = None \<longrightarrow>
            palette_load_lines content colors
              = palette_load_lines (drop (length (fgets_line 255 content)) content) colors)"
proof -
  have "palette_colors (palette_save_defaults store) = palette_colors store"
    by (simp add: palette_save_defaults_def)
  with assms have "palette_colors (palette_load (palette_save True st file) store) = palette_colors st"
    by (simp add: palette_load_def palette_save_def Let_def palette_load_lines_save_text)
  moreover have "palette_save True st file
           = Some (concat (map (\<lambda>i. color_line (if i < 32 then int i else 256 + (int i - 32))
                                       (palette_colors st ! i)) [0..<MAX_COL + 1]))"
    using palette_save_text_lines [of "palette_colors st"]
    by (simp add: palette_save_def file_index_def)
  moreover have "palette_load_line (color_line (if i < 32 then int i else 256 + (int i - 32)) c) colors
              = colors[i := c]" if "i \<le> MAX_COL"
    using palette_load_line_color_line [OF that, of c colors] by (simp add: file_index_def)
  moreover have "palette_load_lines content colors
              = palette_load_lines (drop (length (fgets_line 255 content)) content) colors"
    if "content \<noteq> []" and "sscanf_color (c_str (fgets_line 255 content)) = None"
    using that by (subst palette_load_lines.simps) (simp add: palette_load_line_def)
  ultimately show ?thesis by blast
qed

theorem palette_save_load_round_trip_witness:
  "length (palette_colors fresh_palette) = MAX_COL + 1
   \<and> palette_colors
        (palette_load
          (palette_save True (fresh_palette\<lparr>palette_colors := initial_palette_colors[33 := rgb 1 2 3]\<rparr>)
             None)
          fresh_palette)
       = initial_palette_colors[33 := rgb 1 2 3]
   \<and> sscanf_color (c_str (fgets_line 255 ''colour 7 is red'')) = None
   \<and> palette_load_lines ''colour 7 is red'' initial_palette_colors = initial_palette_colors
   \<and> palette_load_line (color_line 257 (rgb 1 2 3)) initial_palette_colors
       = initial_palette_colors[33 := rgb 1 2 3]"
proof -
  have len: "length (palette_colors fresh_palette) = MAX_COL + 1"
    "length (palette_colors (fresh_palette\<lparr>palette_colors := initial_palette_colors[33 := rgb 1 2 3]\<rparr>))
       = MAX_COL + 1"
    by (simp_all add: fresh_palette_def initial_palette_colors_def MAX_COL_def)
  have junk: "sscanf_color (c_str (fgets_line 255 ''colour 7 is red'')) = None"
    by code_simp
  have rest: "drop (length (fgets_line 255 ''colour 7 is red'')) ''colour 7 is red'' = []"
    by code_simp
  have i: "(33::nat) \<le> MAX_COL" by (simp add: MAX_COL_def)
  have sel: "palette_colors (fresh_palette\<lparr>palette_colors := initial_palette_colors[33 := rgb 1 2 3]\<rparr>)
      = initial_palette_colors[33 := rgb 1 2 3]"
    by simp
  have idx: "(if (33::nat) < 32 then int 33 else 256 + (int 33 - 32)) = 257" by simp
  have ne: "''colour 7 is red'' \<noteq> []" by simp
  note rt = palette_save_load_round_trip [OF len(2) len(1), of None 33 "rgb 1 2 3"
      initial_palette_colors "''colour 7 is red''", unfolded sel idx]
  from rt have a: "palette_colors
        (palette_load
          (palette_save True (fresh_palette\<lparr>palette_colors := initial_palette_colors[33 := rgb 1 2 3]\<rparr>)
             None)
          fresh_palette)
       = initial_palette_colors[33 := rgb 1 2 3]"
    by blast
  from rt junk ne have "palette_load_lines ''colour 7 is red'' initial_palette_colors
      = palette_load_lines (drop (length (fgets_line 255 ''colour 7 is red'')) ''colour 7 is red'')
          initial_palette_colors"
    by blast
  then have b: "palette_load_lines ''colour 7 is red'' initial_palette_colors
      = initial_palette_colors"
    by (simp only: rest palette_load_lines_nil)
  from rt i have c: "palette_load_line (color_line 257 (rgb 1 2 3)) initial_palette_colors
       = initial_palette_colors[33 := rgb 1 2 3]"
    by blast
  from len(1) a junk b c show ?thesis by (simp only: simp_thms)
qed

end
